theory Spec2Isabelle
  imports Main "HOL-Library.Word" "HOL-Library.AList"
begin

unbundle bit_operations_syntax

section \<open>Persisted preferences: background worker and popup\<close>

text \<open>
  Values as the storage callback hands them to the scripts. A key that was never
  written reads as \<open>Undefined\<close> on the result object.
\<close>

datatype jsValue = Undefined | Null | Boolean bool | Number int | String string

type_synonym storage = "string \<rightharpoonup> jsValue"

definition storageGet :: "storage \<Rightarrow> string \<Rightarrow> jsValue" where
  "storageGet st k = (case st k of None \<Rightarrow> Undefined | Some v \<Rightarrow> v)"

record stateResponse =
  enabled :: bool

text \<open>
  background.js, the \<open>onMessage\<close> listener: only the action \<open>getState\<close> is answered,
  with \<open>{ enabled: result.enabled !== false }\<close>.
\<close>

definition onMessage :: "storage \<Rightarrow> string \<Rightarrow> stateResponse option" where
  "onMessage st action =
     (if action = ''getState''
      then Some \<lparr>enabled = (storageGet st ''enabled'' \<noteq> Boolean False)\<rparr>
      else None)"

record toggleButton =
  textContent :: string
  ariaPressed :: string

text \<open>popup.js, \<open>updateButtonState\<close> and the storage callback that loads the state.\<close>

definition updateButtonState :: "bool \<Rightarrow> toggleButton" where
  "updateButtonState en =
     \<lparr>textContent = (if en then ''Disable Extension'' else ''Enable Extension''),
      ariaPressed = (if en then ''true'' else ''false'')\<rparr>"

definition loadState :: "storage \<Rightarrow> toggleButton" where
  "loadState st = updateButtonState (storageGet st ''enabled'' \<noteq> Boolean False)"

section \<open>Cyclic cursors\<close>

text \<open>
  The remainder operator \<open>%\<close> of the source truncates towards zero: the result has
  the sign of the dividend. The callers guard against a zero divisor.
\<close>

definition jsRemainder :: "int \<Rightarrow> int \<Rightarrow> int" where
  "jsRemainder a n = sgn a * (\<bar>a\<bar> mod \<bar>n\<bar>)"

text \<open>
  The cursor assignments of \<open>navigateToNextHeading\<close> / \<open>navigateToNextLandmark\<close>
  and of \<open>navigateToPreviousHeading\<close> / \<open>navigateToPreviousLandmark\<close>, for a
  freshly computed list of length \<open>n\<close>.
\<close>

definition nextCursor :: "nat \<Rightarrow> int \<Rightarrow> int" where
  "nextCursor n c = jsRemainder (c + 1) (int n)"

definition previousCursor :: "nat \<Rightarrow> int \<Rightarrow> int" where
  "previousCursor n c = (if c \<le> 0 then int n - 1 else c - 1)"

section \<open>The page: elements, attributes and document order\<close>

text \<open>
  An element of the page as the content script observes it. \<open>ident\<close> is the identity
  of the object (what \<open>===\<close> compares); \<open>display\<close> and \<open>visibility\<close> are the values
  \<open>window.getComputedStyle\<close> reports; \<open>offsetParentNull\<close> says that \<open>offsetParent\<close>
  is \<open>null\<close>. \<open>tagName\<close> is in upper case, as the DOM reports it for HTML elements.
\<close>

record node =
  ident :: nat
  tagName :: string
  attributes :: "(string \<times> string) list"
  display :: string
  visibility :: string
  offsetParentNull :: bool
  isContentEditable :: bool

datatype element = Element (node: node) (childNodes: "element list")

text \<open>Document order is the order of a depth-first traversal, parents first.\<close>

fun nodes :: "element \<Rightarrow> node list" where
  "nodes (Element n cs) = n # concat (map nodes cs)"

fun elements :: "element \<Rightarrow> element list" where
  "elements (Element n cs) = Element n cs # concat (map elements cs)"

text \<open>Every node with its ancestors, the nearest first.\<close>

fun withAncestors :: "node list \<Rightarrow> element \<Rightarrow> (node \<times> node list) list" where
  "withAncestors anc (Element n cs) = (n, anc) # concat (map (withAncestors (n # anc)) cs)"

definition getAttribute :: "node \<Rightarrow> string \<Rightarrow> string option" where
  "getAttribute n name = map_of (attributes n) name"

definition hasAttribute :: "node \<Rightarrow> string \<Rightarrow> bool" where
  "hasAttribute n name = (getAttribute n name \<noteq> None)"

definition querySelectorAll :: "(node \<Rightarrow> bool) \<Rightarrow> element \<Rightarrow> node list" where
  "querySelectorAll sel doc = filter sel (nodes doc)"

definition querySelector :: "(node \<Rightarrow> bool) \<Rightarrow> element \<Rightarrow> node option" where
  "querySelector sel doc = find sel (nodes doc)"

definition findNode :: "nat \<Rightarrow> element \<Rightarrow> node option" where
  "findNode i doc = find (\<lambda>n. ident n = i) (nodes doc)"

definition findElement :: "nat \<Rightarrow> element \<Rightarrow> element option" where
  "findElement i doc = find (\<lambda>e. ident (node e) = i) (elements doc)"

text \<open>\<open>a.contains(b)\<close>: \<open>b\<close> is \<open>a\<close> or a descendant of \<open>a\<close>.\<close>

definition containsNode :: "element \<Rightarrow> nat \<Rightarrow> nat \<Rightarrow> bool" where
  "containsNode doc a b =
     (case findElement a doc of None \<Rightarrow> False | Some e \<Rightarrow> b \<in> set (map ident (nodes e)))"

text \<open>\<open>x.closest(selector)\<close>: the element itself or its nearest ancestor that matches.\<close>

definition closest :: "(node \<Rightarrow> bool) \<Rightarrow> element \<Rightarrow> node \<Rightarrow> node option" where
  "closest sel doc x =
     (case find (\<lambda>(n, anc). ident n = ident x) (withAncestors [] doc) of
        None \<Rightarrow> None
      | Some (n, anc) \<Rightarrow> find sel (n # anc))"

text \<open>\<open>Array.prototype.indexOf\<close> on a list of elements: identity, and \<open>-1\<close> when absent.\<close>

fun indexOf :: "node list \<Rightarrow> nat \<Rightarrow> int" where
  "indexOf [] i = - 1"
| "indexOf (y # ys) i =
     (if ident y = i then 0 else (let r = indexOf ys i in if r < 0 then - 1 else r + 1))"

text \<open>The filter \<open>xs.filter((x, index) => xs.indexOf(x) === index)\<close>.\<close>

definition removeDuplicates :: "node list \<Rightarrow> node list" where
  "removeDuplicates xs =
     map fst (filter (\<lambda>(x, index). indexOf xs (ident x) = int index) (zip xs [0..<length xs]))"

text \<open>
  \<open>a.compareDocumentPosition(b)\<close> for two nodes of the document, as the bit mask
  the DOM returns: \<open>b\<close> follows \<open>a\<close> (4, and 16 more when \<open>a\<close> contains \<open>b\<close>) or
  precedes it (2, and 8 more when \<open>b\<close> contains \<open>a\<close>). Every call in the source
  compares two results of \<open>querySelectorAll\<close>, so both nodes are in the document.
\<close>

definition DOCUMENT_POSITION_PRECEDING :: "16 word" where
  "DOCUMENT_POSITION_PRECEDING = 2"

definition DOCUMENT_POSITION_FOLLOWING :: "16 word" where
  "DOCUMENT_POSITION_FOLLOWING = 4"

definition DOCUMENT_POSITION_CONTAINS :: "16 word" where
  "DOCUMENT_POSITION_CONTAINS = 8"

definition DOCUMENT_POSITION_CONTAINED_BY :: "16 word" where
  "DOCUMENT_POSITION_CONTAINED_BY = 16"

definition compareDocumentPosition :: "element \<Rightarrow> node \<Rightarrow> node \<Rightarrow> 16 word" where
  "compareDocumentPosition doc a b =
     (if ident a = ident b then 0
      else if indexOf (nodes doc) (ident a) < indexOf (nodes doc) (ident b)
      then DOCUMENT_POSITION_FOLLOWING OR
           (if containsNode doc (ident a) (ident b) then DOCUMENT_POSITION_CONTAINED_BY else 0)
      else DOCUMENT_POSITION_PRECEDING OR
           (if containsNode doc (ident b) (ident a) then DOCUMENT_POSITION_CONTAINS else 0))"

text \<open>The comparator both collectors hand to \<open>sort\<close>.\<close>

definition byDocumentOrder :: "element \<Rightarrow> node \<Rightarrow> node \<Rightarrow> int" where
  "byDocumentOrder doc a b =
     (let position = compareDocumentPosition doc a b
      in if position AND DOCUMENT_POSITION_FOLLOWING \<noteq> 0 then - 1
         else if position AND DOCUMENT_POSITION_PRECEDING \<noteq> 0 then 1
         else 0)"

text \<open>
  \<open>Array.prototype.sort\<close> with a comparator, as a stable insertion sort: an element
  goes before the first element it does not compare greater than.
\<close>

fun insertSorted :: "('a \<Rightarrow> 'a \<Rightarrow> int) \<Rightarrow> 'a \<Rightarrow> 'a list \<Rightarrow> 'a list" where
  "insertSorted cmp x [] = [x]"
| "insertSorted cmp x (y # ys) =
     (if cmp x y \<le> 0 then x # y # ys else y # insertSorted cmp x ys)"

definition sortWith :: "('a \<Rightarrow> 'a \<Rightarrow> int) \<Rightarrow> 'a list \<Rightarrow> 'a list" where
  "sortWith cmp xs = foldr (insertSorted cmp) xs []"

section \<open>Collecting headings and landmarks\<close>

definition isVisible :: "node \<Rightarrow> bool" where
  "isVisible n =
     (display n \<noteq> ''none'' \<and> visibility n \<noteq> ''hidden'' \<and>
      getAttribute n ''aria-hidden'' \<noteq> Some ''true'')"

definition hasTag :: "string list \<Rightarrow> node \<Rightarrow> bool" where
  "hasTag tags n = (tagName n \<in> set tags)"

definition hasRole :: "string \<Rightarrow> node \<Rightarrow> bool" where
  "hasRole r n = (getAttribute n ''role'' = Some r)"

definition getAllHeadings :: "element \<Rightarrow> node list" where
  "getAllHeadings doc =
     (let htmlHeadings = querySelectorAll (hasTag [''H1'', ''H2'', ''H3'', ''H4'', ''H5'', ''H6'']) doc;
          ariaHeadings = querySelectorAll (hasRole ''heading'') doc;
          allHeadings = htmlHeadings @ ariaHeadings;
          uniqueHeadings = removeDuplicates allHeadings;
          visibleHeadings = filter isVisible uniqueHeadings
      in sortWith (byDocumentOrder doc) visibleHeadings)"

definition ariaLandmarkRoles :: "string list" where
  "ariaLandmarkRoles =
     [''banner'', ''navigation'', ''main'', ''complementary'', ''contentinfo'', ''search'',
      ''form'', ''region'']"

definition isLabelled :: "node \<Rightarrow> bool" where
  "isLabelled n = (hasAttribute n ''aria-label'' \<or> hasAttribute n ''aria-labelledby'')"

definition notNested :: "element \<Rightarrow> node \<Rightarrow> bool" where
  "notNested doc n = (closest (hasTag [''ARTICLE'', ''SECTION'']) doc n = None)"

definition getAllLandmarks :: "element \<Rightarrow> node list" where
  "getAllLandmarks doc =
     (let explicit = concat (map (\<lambda>role. querySelectorAll (hasRole role) doc) ariaLandmarkRoles);
          headers = filter (notNested doc) (querySelectorAll (hasTag [''HEADER'']) doc);
          navs = querySelectorAll (hasTag [''NAV'']) doc;
          mains = querySelectorAll (hasTag [''MAIN'']) doc;
          footers = filter (notNested doc) (querySelectorAll (hasTag [''FOOTER'']) doc);
          asides = querySelectorAll (hasTag [''ASIDE'']) doc;
          sections = querySelectorAll (\<lambda>n. hasTag [''SECTION''] n \<and> isLabelled n) doc;
          forms = querySelectorAll (\<lambda>n. hasTag [''FORM''] n \<and> isLabelled n) doc;
          landmarks = explicit @ headers @ navs @ mains @ footers @ asides @ sections @ forms;
          uniqueLandmarks = removeDuplicates landmarks;
          visibleLandmarks = filter isVisible uniqueLandmarks
      in sortWith (byDocumentOrder doc) visibleLandmarks)"

section \<open>The page as state: attributes, focus and blur listeners\<close>

text \<open>
  The listeners the script registers for \<open>blur\<close>, each with \<open>{ once: true }\<close>. Each
  is a closure over the element it is registered on: the one of
  \<open>makeElementFocusableAndFocus\<close> removes \<open>tabindex\<close>, the one of \<open>focusMainHeading\<close>,
  \<open>focusMainContent\<close> and \<open>focusNavigation\<close> puts the captured value back.
\<close>

datatype blurListener = RemoveTabindex | RestoreTabindex "string option"

text \<open>
  The document is represented by its \<open>body\<close> subtree. \<open>activeElement\<close> is the
  identity of \<open>document.activeElement\<close>, the body when nothing else has focus.
\<close>

record page =
  body :: element
  activeElement :: nat
  blurListeners :: "nat \<Rightarrow> blurListener list"

fun updateNode :: "nat \<Rightarrow> (node \<Rightarrow> node) \<Rightarrow> element \<Rightarrow> element" where
  "updateNode i f (Element n cs) =
     Element (if ident n = i then f n else n) (map (updateNode i f) cs)"

fun removeElement :: "nat \<Rightarrow> element \<Rightarrow> element" where
  "removeElement i (Element n cs) =
     Element n (map (removeElement i) (filter (\<lambda>c. ident (node c) \<noteq> i) cs))"

definition setAttribute :: "nat \<Rightarrow> string \<Rightarrow> string \<Rightarrow> page \<Rightarrow> page" where
  "setAttribute i name v p =
     p\<lparr>body := updateNode i (\<lambda>n. n\<lparr>attributes := AList.update name v (attributes n)\<rparr>) (body p)\<rparr>"

definition removeAttribute :: "nat \<Rightarrow> string \<Rightarrow> page \<Rightarrow> page" where
  "removeAttribute i name p =
     p\<lparr>body := updateNode i (\<lambda>n. n\<lparr>attributes := AList.delete name (attributes n)\<rparr>) (body p)\<rparr>"

text \<open>\<open>element.getAttribute(name)\<close> through a reference: \<open>null\<close> is \<open>None\<close>.\<close>

definition attributeOf :: "nat \<Rightarrow> string \<Rightarrow> page \<Rightarrow> string option" where
  "attributeOf i name p =
     (case findNode i (body p) of None \<Rightarrow> None | Some n \<Rightarrow> getAttribute n name)"

text \<open>
  The selector \<open>focusableSelector\<close> of \<open>tabMultipleTimes\<close>:
  \<open>a[href], button:not([disabled]), input:not([disabled]), select:not([disabled]),
  textarea:not([disabled]), [tabindex]:not([tabindex="-1"])\<close>.
\<close>

definition focusableSelector :: "node \<Rightarrow> bool" where
  "focusableSelector n =
     ((hasTag [''A''] n \<and> hasAttribute n ''href'') \<or>
      (hasTag [''BUTTON'', ''INPUT'', ''SELECT'', ''TEXTAREA''] n \<and> \<not> hasAttribute n ''disabled'') \<or>
      (hasAttribute n ''tabindex'' \<and> getAttribute n ''tabindex'' \<noteq> Some ''-1''))"

text \<open>
  An element is rendered when neither it nor an ancestor has computed \<open>display\<close>
  \<open>none\<close> and its computed \<open>visibility\<close>, which is inherited, is not \<open>hidden\<close>.
\<close>

definition isRendered :: "element \<Rightarrow> node \<Rightarrow> bool" where
  "isRendered doc n =
     (case find (\<lambda>(m, anc). ident m = ident n) (withAncestors [] doc) of
        None \<Rightarrow> False
      | Some (m, anc) \<Rightarrow>
          list_all (\<lambda>a. display a \<noteq> ''none'') (m # anc) \<and> visibility m \<noteq> ''hidden'')"

text \<open>
  A \<open>tabindex\<close> value counts when it parses as an integer: after leading white
  space and one optional sign there is a digit.
\<close>

definition parsesAsInteger :: "string \<Rightarrow> bool" where
  "parsesAsInteger v =
     (case dropWhile (\<lambda>c. c \<in> set [CHR '' '', CHR 0x09, CHR 0x0A, CHR 0x0C, CHR 0x0D]) v of
        [] \<Rightarrow> False
      | c # cs \<Rightarrow>
          if c = CHR ''-'' \<or> c = CHR ''+''
          then (case cs of [] \<Rightarrow> False | d # _ \<Rightarrow> d \<in> set ''0123456789'')
          else c \<in> set ''0123456789'')"

definition isDisabledControl :: "node \<Rightarrow> bool" where
  "isDisabledControl n =
     (hasTag [''BUTTON'', ''INPUT'', ''SELECT'', ''TEXTAREA''] n \<and> hasAttribute n ''disabled'')"

text \<open>
  What \<open>focus()\<close> can move focus to: an element that is rendered, is not a disabled
  form control, and is a link with \<open>href\<close>, a form control, an element whose
  \<open>tabindex\<close> parses as an integer (\<open>-1\<close> included: that is why the source assigns
  it before it calls \<open>focus()\<close>) or an editing host. On any other element \<open>focus()\<close>
  does nothing.
\<close>

definition isFocusable :: "element \<Rightarrow> node \<Rightarrow> bool" where
  "isFocusable doc n =
     (isRendered doc n \<and> \<not> isDisabledControl n \<and>
      ((hasTag [''A''] n \<and> hasAttribute n ''href'') \<or>
       hasTag [''BUTTON'', ''INPUT'', ''SELECT'', ''TEXTAREA''] n \<or>
       (case getAttribute n ''tabindex'' of None \<Rightarrow> False | Some v \<Rightarrow> parsesAsInteger v) \<or>
       isContentEditable n))"

fun runBlurListener :: "nat \<Rightarrow> blurListener \<Rightarrow> page \<Rightarrow> page" where
  "runBlurListener i RemoveTabindex p = removeAttribute i ''tabindex'' p"
| "runBlurListener i (RestoreTabindex None) p = removeAttribute i ''tabindex'' p"
| "runBlurListener i (RestoreTabindex (Some v)) p = setAttribute i ''tabindex'' v p"

text \<open>
  The element loses focus: its pending listeners run in the order of their
  registration, and being registered once they are gone afterwards.
\<close>

definition dispatchBlur :: "nat \<Rightarrow> page \<Rightarrow> page" where
  "dispatchBlur i p =
     (foldl (\<lambda>q l. runBlurListener i l q) p (blurListeners p i))
       \<lparr>blurListeners := (blurListeners p)(i := [])\<rparr>"

definition addBlurListener :: "nat \<Rightarrow> blurListener \<Rightarrow> page \<Rightarrow> page" where
  "addBlurListener i l p = p\<lparr>blurListeners := (blurListeners p)(i := blurListeners p i @ [l])\<rparr>"

text \<open>
  \<open>element.focus()\<close>: nothing happens when the element is not in the document, is not
  focusable or has focus already; otherwise the element that had focus receives
  \<open>blur\<close> and the element becomes \<open>document.activeElement\<close>.
\<close>

definition focus :: "nat \<Rightarrow> page \<Rightarrow> page" where
  "focus i p =
     (case findNode i (body p) of
        None \<Rightarrow> p
      | Some n \<Rightarrow>
          if \<not> isFocusable (body p) n \<or> activeElement p = i then p
          else (dispatchBlur (activeElement p) p)\<lparr>activeElement := i\<rparr>)"

text \<open>\<open>makeElementFocusableAndFocus\<close>, on the reference of the element.\<close>

definition makeElementFocusableAndFocus :: "nat \<Rightarrow> page \<Rightarrow> page" where
  "makeElementFocusableAndFocus i p =
     (let originalTabIndex = attributeOf i ''tabindex'' p;
          p1 = (if originalTabIndex = None then setAttribute i ''tabindex'' ''-1'' p else p);
          p2 = focus i p1
      in if originalTabIndex = None then addBlurListener i RemoveTabindex p2 else p2)"

text \<open>
  The common body of \<open>focusMainHeading\<close>, \<open>focusMainContent\<close> and \<open>focusNavigation\<close>:
  \<open>tabindex\<close> is set to \<open>-1\<close> whatever it was, and the listener restores it.
\<close>

definition focusTemporarily :: "(node \<Rightarrow> bool) \<Rightarrow> page \<Rightarrow> page" where
  "focusTemporarily sel p =
     (case querySelector sel (body p) of
        None \<Rightarrow> p
      | Some n \<Rightarrow>
          (let originalTabIndex = getAttribute n ''tabindex'';
               p1 = setAttribute (ident n) ''tabindex'' ''-1'' p;
               p2 = focus (ident n) p1
           in addBlurListener (ident n) (RestoreTabindex originalTabIndex) p2))"

definition focusMainHeading :: "page \<Rightarrow> page" where
  "focusMainHeading p = focusTemporarily (hasTag [''H1'']) p"

definition focusMainContent :: "page \<Rightarrow> page" where
  "focusMainContent p = focusTemporarily (\<lambda>n. hasTag [''MAIN''] n \<or> hasRole ''main'' n) p"

definition focusNavigation :: "page \<Rightarrow> page" where
  "focusNavigation p = focusTemporarily (\<lambda>n. hasTag [''NAV''] n \<or> hasRole ''navigation'' n) p"

text \<open>\<open>xs[i]\<close>: \<open>undefined\<close>, here \<open>None\<close>, outside the list.\<close>

definition elementAt :: "'a list \<Rightarrow> int \<Rightarrow> 'a option" where
  "elementAt xs i = (if 0 \<le> i \<and> i < int (length xs) then Some (xs ! nat i) else None)"

definition tabMultipleTimes :: "int \<Rightarrow> page \<Rightarrow> page" where
  "tabMultipleTimes count p =
     (let focusableElements = querySelectorAll focusableSelector (body p)
      in if focusableElements = [] then p
         else
           (let visibleFocusable =
                  filter (\<lambda>el. display el \<noteq> ''none'' \<and> visibility el \<noteq> ''hidden'' \<and>
                                \<not> offsetParentNull el) focusableElements
            in if visibleFocusable = [] then p
               else
                 (let currentIndex = indexOf visibleFocusable (activeElement p);
                      newIndex =
                        (if currentIndex = - 1
                         then min (count - 1) (int (length visibleFocusable) - 1)
                         else jsRemainder (currentIndex + count) (int (length visibleFocusable)))
                  in case elementAt visibleFocusable newIndex of
                       None \<Rightarrow> p
                     | Some el \<Rightarrow> focus (ident el) p)))"

text \<open>
  \<open>parent.removeChild(d)\<close> for an element \<open>d\<close> below the body. When focus was inside
  the removed subtree, \<open>document.activeElement\<close> is the body afterwards; no \<open>blur\<close>
  is dispatched.
\<close>

definition removeChild :: "nat \<Rightarrow> page \<Rightarrow> page" where
  "removeChild d p =
     p\<lparr>body := removeElement d (body p),
       activeElement :=
         (if containsNode (body p) d (activeElement p) then ident (node (body p))
          else activeElement p)\<rparr>"

definition appendChild :: "element \<Rightarrow> page \<Rightarrow> page" where
  "appendChild e p =
     p\<lparr>body := Element (node (body p)) (childNodes (body p) @ [e])\<rparr>"

section \<open>The navigator\<close>

text \<open>
  The module-level variables of the content script, with the page they act on.
  \<open>nextIdent\<close> is the identity the next created element receives. The lists hold
  references, that is identities. \<open>logFocusChange\<close> is taken to return normally;
  its console output and its scale effect (inline \<open>transform\<close> and \<open>transition\<close>,
  \<open>currentlyScaledElement\<close>) are read by none of the operations below and are left
  out, and so are the strings \<open>getHeadingLevel\<close>, \<open>getLandmarkRole\<close> and
  \<open>getLandmarkLabel\<close> compute for it.
\<close>

record navigator =
  isMac :: bool
  DEBUG_FOCUS :: bool
  currentHeadingIndex :: int
  lastHeadingsList :: "nat list"
  currentLandmarkIndex :: int
  lastLandmarksList :: "nat list"
  helpDialogOpen :: bool
  helpDialogElement :: "nat option"
  lastFocusedElement :: "nat option"
  nextIdent :: nat
  page :: page

definition initialState :: "bool \<Rightarrow> storage \<Rightarrow> element \<Rightarrow> navigator" where
  "initialState mac st doc =
     \<lparr>isMac = mac,
      DEBUG_FOCUS = (storageGet st ''debugMode'' = Boolean True),
      currentHeadingIndex = - 1,
      lastHeadingsList = [],
      currentLandmarkIndex = - 1,
      lastLandmarksList = [],
      helpDialogOpen = False,
      helpDialogElement = None,
      lastFocusedElement = None,
      nextIdent = Suc (fold max (map ident (nodes doc)) 0),
      page = \<lparr>body = doc, activeElement = ident (node doc), blurListeners = (\<lambda>_. [])\<rparr>\<rparr>"

subsection \<open>Cyclic traversal\<close>

text \<open>
  When the new cursor is outside the list, \<open>headings[currentHeadingIndex]\<close> is
  \<open>undefined\<close> and \<open>getHeadingLevel\<close> (\<open>getLandmarkRole\<close>) throws on it: the handler
  ends there, with the cursor and the list already assigned.
\<close>

definition navigateToNextHeading :: "navigator \<Rightarrow> navigator" where
  "navigateToNextHeading s =
     (let headings = getAllHeadings (body (page s))
      in if length headings = 0 then s
         else
           (let s1 = s\<lparr>lastHeadingsList := map ident headings,
                       currentHeadingIndex := nextCursor (length headings) (currentHeadingIndex s)\<rparr>
            in case elementAt headings (currentHeadingIndex s1) of
                 None \<Rightarrow> s1
               | Some heading \<Rightarrow>
                   s1\<lparr>page := makeElementFocusableAndFocus (ident heading) (page s1)\<rparr>))"

definition navigateToPreviousHeading :: "navigator \<Rightarrow> navigator" where
  "navigateToPreviousHeading s =
     (let headings = getAllHeadings (body (page s))
      in if length headings = 0 then s
         else
           (let s1 = s\<lparr>lastHeadingsList := map ident headings,
                       currentHeadingIndex :=
                         previousCursor (length headings) (currentHeadingIndex s)\<rparr>
            in case elementAt headings (currentHeadingIndex s1) of
                 None \<Rightarrow> s1
               | Some heading \<Rightarrow>
                   s1\<lparr>page := makeElementFocusableAndFocus (ident heading) (page s1)\<rparr>))"

definition navigateToNextLandmark :: "navigator \<Rightarrow> navigator" where
  "navigateToNextLandmark s =
     (let landmarks = getAllLandmarks (body (page s))
      in if length landmarks = 0 then s
         else
           (let s1 = s\<lparr>lastLandmarksList := map ident landmarks,
                       currentLandmarkIndex :=
                         nextCursor (length landmarks) (currentLandmarkIndex s)\<rparr>
            in case elementAt landmarks (currentLandmarkIndex s1) of
                 None \<Rightarrow> s1
               | Some landmark \<Rightarrow>
                   s1\<lparr>page := makeElementFocusableAndFocus (ident landmark) (page s1)\<rparr>))"

definition navigateToPreviousLandmark :: "navigator \<Rightarrow> navigator" where
  "navigateToPreviousLandmark s =
     (let landmarks = getAllLandmarks (body (page s))
      in if length landmarks = 0 then s
         else
           (let s1 = s\<lparr>lastLandmarksList := map ident landmarks,
                       currentLandmarkIndex :=
                         previousCursor (length landmarks) (currentLandmarkIndex s)\<rparr>
            in case elementAt landmarks (currentLandmarkIndex s1) of
                 None \<Rightarrow> s1
               | Some landmark \<Rightarrow>
                   s1\<lparr>page := makeElementFocusableAndFocus (ident landmark) (page s1)\<rparr>))"

subsection \<open>The help dialog\<close>

text \<open>
  The subtree \<open>openHelpDialog\<close> builds, element by element as the markup assigned to
  \<open>innerHTML\<close> has them, without the text and the style sheet. \<open>display\<close> is what the
  style sheet of the dialog gives each element. The identities are assigned when the
  elements are created.
\<close>

definition markup :: "string \<Rightarrow> (string \<times> string) list \<Rightarrow> string \<Rightarrow> element list \<Rightarrow> element" where
  "markup t attrs disp cs =
     Element \<lparr>ident = 0, tagName = t, attributes = attrs, display = disp,
              visibility = ''visible'', offsetParentNull = (disp = ''none''),
              isContentEditable = False\<rparr> cs"

definition shortcutRow :: element where
  "shortcutRow =
     markup ''DIV'' [(''class'', ''easynav-help-shortcut'')] ''flex''
       [markup ''SPAN'' [(''class'', ''easynav-help-description'')] ''block'' [],
        markup ''SPAN'' [(''class'', ''easynav-help-keys'')] ''block'' []]"

definition helpSection :: "element list \<Rightarrow> element" where
  "helpSection rows =
     markup ''DIV'' [(''class'', ''easynav-help-section'')] ''block''
       (markup ''H2'' [] ''block'' [] # rows)"

definition debugToggle :: "bool \<Rightarrow> element" where
  "debugToggle debug =
     markup ''DIV'' [(''class'', ''easynav-debug-toggle'')] ''flex''
       [markup ''SPAN'' [(''class'', ''easynav-debug-label'')] ''block'' [],
        markup ''BUTTON''
          [(''id'', ''easynav-debug-toggle-btn''), (''class'', ''easynav-toggle-button''),
           (''type'', ''button''), (''role'', ''switch''),
           (''aria-pressed'', if debug then ''true'' else ''false''),
           (''aria-label'', ''Toggle debug mode'')] ''inline-block''
          [markup ''SPAN'' [(''class'', ''easynav-toggle-slider'')] ''block'' []]]"

definition helpDialogMarkup :: "bool \<Rightarrow> element" where
  "helpDialogMarkup debug =
     Element
       \<lparr>ident = 0, tagName = ''DIV'',
        attributes =
          [(''id'', ''easynav-help-dialog''), (''role'', ''dialog''), (''aria-modal'', ''true''),
           (''aria-labelledby'', ''easynav-help-title''),
           (''aria-describedby'', ''easynav-help-title easynav-help-intro'')],
        display = ''flex'', visibility = ''visible'', offsetParentNull = True,
        isContentEditable = False\<rparr>
       [markup ''STYLE'' [] ''none'' [],
        markup ''DIV'' [(''id'', ''easynav-help-content'')] ''block''
          [markup ''BUTTON''
             [(''id'', ''easynav-help-close''), (''type'', ''button''),
              (''aria-label'', ''Close help dialog'')] ''flex'' [],
           markup ''H1'' [(''id'', ''easynav-help-title'')] ''block'' [],
           markup ''P''
             [(''id'', ''easynav-help-intro''), (''class'', ''easynav-visually-hidden'')]
             ''block'' [],
           helpSection [shortcutRow, shortcutRow, shortcutRow],
           helpSection [shortcutRow, shortcutRow, shortcutRow, shortcutRow],
           helpSection [shortcutRow, shortcutRow],
           helpSection [shortcutRow, shortcutRow, debugToggle debug]]]"

fun createElements :: "nat \<Rightarrow> element \<Rightarrow> element \<times> nat"
  and createChildren :: "nat \<Rightarrow> element list \<Rightarrow> element list \<times> nat" where
  "createElements k (Element n cs) =
     (let (cs', k') = createChildren (Suc k) cs in (Element (n\<lparr>ident := k\<rparr>) cs', k'))"
| "createChildren k [] = ([], k)"
| "createChildren k (c # cs) =
     (let (c', k1) = createElements k c;
          (cs', k2) = createChildren k1 cs
      in (c' # cs', k2))"

definition hasId :: "string \<Rightarrow> node \<Rightarrow> bool" where
  "hasId v n = (getAttribute n ''id'' = Some v)"

text \<open>
  \<open>openHelpDialog\<close>. The focus trap of \<open>setupFocusTrap\<close> and the listener of
  \<open>setupFocusOutHandler\<close> are registered on the dialog; what the latter runs after
  its delay is \<open>focusOutCheck\<close> below. A close button that the query does not find
  would make \<open>closeButton.addEventListener\<close> throw, before \<open>helpDialogOpen\<close> is set.
\<close>

definition openHelpDialog :: "navigator \<Rightarrow> navigator" where
  "openHelpDialog s =
     (if helpDialogOpen s then s
      else
        (let s1 = s\<lparr>lastFocusedElement := Some (activeElement (page s))\<rparr>;
             (dialog, k) = createElements (nextIdent s1) (helpDialogMarkup (DEBUG_FOCUS s1));
             s2 = s1\<lparr>helpDialogElement := Some (ident (node dialog)), nextIdent := k\<rparr>;
             s3 = s2\<lparr>page := appendChild dialog (page s2)\<rparr>
         in case querySelector (hasId ''easynav-help-close'') dialog of
              None \<Rightarrow> s3
            | Some closeButton \<Rightarrow>
                s3\<lparr>page := focus (ident closeButton) (page s3), helpDialogOpen := True\<rparr>))"

text \<open>The fallback of \<open>closeHelpDialog\<close>: the skip link, or the body.\<close>

definition focusFallback :: "page \<Rightarrow> page" where
  "focusFallback p =
     (case find (\<lambda>e. hasId ''easynav-skip-links'' (node e)) (elements (body p)) of
        Some skipLinks \<Rightarrow>
          (case find (hasTag [''A'']) (tl (nodes skipLinks)) of
             Some skipLink \<Rightarrow> focus (ident skipLink) p
           | None \<Rightarrow> p)
      | None \<Rightarrow> focus (ident (node (body p))) p)"

definition closeHelpDialog :: "navigator \<Rightarrow> navigator" where
  "closeHelpDialog s =
     (case helpDialogElement s of
        None \<Rightarrow> s
      | Some d \<Rightarrow>
          if \<not> helpDialogOpen s then s
          else
            (let p1 = (if d \<in> set (map ident (tl (nodes (body (page s)))))
                       then removeChild d (page s) else page s);
                 p2 = (case lastFocusedElement s of
                         None \<Rightarrow> focusFallback p1
                       | Some e \<Rightarrow>
                           if findNode e (body p1) \<noteq> None then focus e p1
                           else focusFallback p1)
             in s\<lparr>helpDialogElement := None, helpDialogOpen := False,
                  lastFocusedElement := None, page := p2\<rparr>))"

definition toggleHelpDialog :: "navigator \<Rightarrow> navigator" where
  "toggleHelpDialog s = (if helpDialogOpen s then closeHelpDialog s else openHelpDialog s)"

text \<open>The callback the \<open>focusout\<close> listener of the dialog schedules.\<close>

definition focusOutCheck :: "navigator \<Rightarrow> navigator" where
  "focusOutCheck s =
     (let isInsideDialog =
            (case helpDialogElement s of
               None \<Rightarrow> False
             | Some d \<Rightarrow> containsNode (body (page s)) d (activeElement (page s)))
      in if \<not> isInsideDialog \<and> helpDialogOpen s then closeHelpDialog s else s)"

subsection \<open>Keyboard dispatch\<close>

record keyboardEvent =
  key :: string
  ctrlKey :: bool
  metaKey :: bool
  altKey :: bool
  shiftKey :: bool
  capsLock :: bool
  target :: node

definition shouldIgnoreKeyEvent :: "keyboardEvent \<Rightarrow> bool" where
  "shouldIgnoreKeyEvent event =
     (if tagName (target event) \<in> set [''INPUT'', ''TEXTAREA'', ''SELECT''] then True
      else if isContentEditable (target event) then True
      else if (case getAttribute (target event) ''role'' of
                 None \<Rightarrow> False
               | Some role \<Rightarrow>
                   role \<noteq> [] \<and>
                   role \<in> set [''textbox'', ''searchbox'', ''combobox'', ''listbox'', ''tree'', ''grid''])
           then True
      else if capsLock event then True
      else False)"

definition onPage :: "(page \<Rightarrow> page) \<Rightarrow> navigator \<Rightarrow> navigator" where
  "onPage f s = s\<lparr>page := f (page s)\<rparr>"

text \<open>
  \<open>handleKeyPress\<close>. The first component of the result says whether
  \<open>event.preventDefault()\<close> was called, which every branch that runs a shortcut does.
\<close>

definition handleKeyPress :: "keyboardEvent \<Rightarrow> navigator \<Rightarrow> bool \<times> navigator" where
  "handleKeyPress event s =
     (let plain = (\<not> altKey event \<and> \<not> shiftKey event \<and> \<not> ctrlKey event \<and> \<not> metaKey event);
          altShift = (altKey event \<and> shiftKey event \<and> \<not> ctrlKey event \<and> \<not> metaKey event);
          shiftOnly = (shiftKey event \<and> \<not> altKey event \<and> \<not> ctrlKey event \<and> \<not> metaKey event)
      in
      if key event = ''/'' \<and>
         ((ctrlKey event \<and> \<not> isMac s) \<or> (metaKey event \<and> isMac s)) \<and>
         \<not> altKey event \<and> \<not> shiftKey event
      then (True, toggleHelpDialog s)
      else if key event = ''Escape'' \<and> helpDialogOpen s then (True, closeHelpDialog s)
      else if shouldIgnoreKeyEvent event then (False, s)
      else if key event = ''H'' \<and> altShift then (True, onPage focusMainHeading s)
      else if key event = ''M'' \<and> altShift then (True, onPage focusMainContent s)
      else if key event = ''N'' \<and> altShift then (True, onPage focusNavigation s)
      else if key event = ''%'' \<and> altShift then (True, onPage (tabMultipleTimes 5) s)
      else if key event = '')'' \<and> altShift then (True, onPage (tabMultipleTimes 10) s)
      else if key event = ''h'' \<and> plain then (True, navigateToNextHeading s)
      else if key event = ''H'' \<and> shiftOnly then (True, navigateToPreviousHeading s)
      else if key event = ''l'' \<and> plain then (True, navigateToNextLandmark s)
      else if key event = ''L'' \<and> shiftOnly then (True, navigateToPreviousLandmark s)
      else (False, s))"

subsection \<open>The states the script can be in\<close>

text \<open>
  The states reached from the one the script starts in. Between two of its own
  handlers anything may happen to the page (the user moves focus, scripts of the page
  change the document, the skip links are added or removed), but the module-level
  variables are the script's own. Its handlers are the key handler, the click on the
  close button of the dialog, the click on the debug switch and the delayed check for
  focus outside the dialog. The key handler is registered only while the extension
  is enabled; here it may run at any time.
\<close>

inductive reachable :: "navigator \<Rightarrow> bool" where
  start: "reachable (initialState mac st doc)"
| keydown: "reachable s \<Longrightarrow> reachable (snd (handleKeyPress event s))"
| closeClick: "reachable s \<Longrightarrow> reachable (closeHelpDialog s)"
| debugClick: "reachable s \<Longrightarrow> reachable (s\<lparr>DEBUG_FOCUS := \<not> DEBUG_FOCUS s\<rparr>)"
| focusOut: "reachable s \<Longrightarrow> reachable (focusOutCheck s)"
| environment: "reachable s \<Longrightarrow> reachable (s\<lparr>page := p\<rparr>)"

section \<open>Document order, and a page to try the collectors on\<close>

text \<open>\<open>a\<close> comes before \<open>b\<close> in document order.\<close>

definition precedes :: "element \<Rightarrow> node \<Rightarrow> node \<Rightarrow> bool" where
  "precedes doc a b = (indexOf (nodes doc) (ident a) < indexOf (nodes doc) (ident b))"

definition el :: "nat \<Rightarrow> string \<Rightarrow> (string \<times> string) list \<Rightarrow> element list \<Rightarrow> element" where
  "el i t attrs cs =
     Element \<lparr>ident = i, tagName = t, attributes = attrs, display = ''block'',
              visibility = ''visible'', offsetParentNull = False, isContentEditable = False\<rparr> cs"

definition hiddenEl :: "nat \<Rightarrow> string \<Rightarrow> (string \<times> string) list \<Rightarrow> element list \<Rightarrow> element" where
  "hiddenEl i t attrs cs =
     Element \<lparr>ident = i, tagName = t, attributes = attrs, display = ''none'',
              visibility = ''visible'', offsetParentNull = True, isContentEditable = False\<rparr> cs"

text \<open>
  A page with a banner, a navigation that also carries the role, a main region and a
  footer. The main region holds an article with its own header, navigation and
  footer, a heading hidden by \<open>display\<close>, a heading hidden by \<open>aria-hidden\<close>, a
  heading that is both an \<open>h3\<close> and a \<open>role="heading"\<close>, an aside, a labelled
  section, an unlabelled form and a search region.
\<close>

definition exampleDocument :: element where
  "exampleDocument =
     el 0 ''BODY'' []
       [el 1 ''HEADER'' [] [el 2 ''H1'' [] []],
        el 3 ''NAV'' [(''role'', ''navigation'')] [],
        el 4 ''MAIN'' []
          [el 5 ''ARTICLE'' []
             [el 6 ''HEADER'' [] [],
              el 7 ''H2'' [] [],
              el 8 ''NAV'' [] [],
              el 9 ''FOOTER'' [] []],
           hiddenEl 10 ''DIV'' [(''role'', ''heading'')] [],
           el 11 ''H2'' [(''aria-hidden'', ''true'')] [],
           el 12 ''H3'' [(''role'', ''heading'')] [],
           el 13 ''ASIDE'' [] [],
           el 14 ''SECTION'' [(''aria-label'', ''News'')] [],
           el 15 ''FORM'' [] [],
           el 16 ''DIV'' [(''role'', ''search'')] []],
        el 17 ''FOOTER'' [] []]"

text \<open>The navigation inside the article of that page.\<close>

definition nestedNav :: node where
  "nestedNav =
     \<lparr>ident = 8, tagName = ''NAV'', attributes = [], display = ''block'',
      visibility = ''visible'', offsetParentNull = False, isContentEditable = False\<rparr>"

section \<open>Invariants of the module-level variables\<close>

definition cursorInvariant :: "navigator \<Rightarrow> bool" where
  "cursorInvariant s = (- 1 \<le> currentHeadingIndex s \<and> - 1 \<le> currentLandmarkIndex s)"

definition dialogInvariant :: "navigator \<Rightarrow> bool" where
  "dialogInvariant s =
     ((helpDialogOpen s \<longleftrightarrow> helpDialogElement s \<noteq> None) \<and>
      (\<not> helpDialogOpen s \<longrightarrow> lastFocusedElement s = None))"

section \<open>A small page and the keys pressed on it\<close>

text \<open>
  A body with a first-level heading, a second-level heading that carries
  \<open>tabindex="0"\<close>, and a text input. Nothing has focus.
\<close>

definition smallDocument :: element where
  "smallDocument =
     el 0 ''BODY'' []
       [el 1 ''H1'' [] [],
        el 2 ''H2'' [(''tabindex'', ''0'')] [],
        el 3 ''INPUT'' [(''type'', ''text'')] []]"

definition startState :: navigator where
  "startState = initialState False Map.empty smallDocument"

text \<open>The script started on the example page, and on a page with an empty body.\<close>

definition exampleState :: navigator where
  "exampleState = initialState False Map.empty exampleDocument"

definition emptyState :: navigator where
  "emptyState = initialState False Map.empty (el 0 ''BODY'' [] [])"

text \<open>A key pressed alone, and with Ctrl, on a target.\<close>

definition keyAlone :: "string \<Rightarrow> node \<Rightarrow> keyboardEvent" where
  "keyAlone k t =
     \<lparr>key = k, ctrlKey = False, metaKey = False, altKey = False, shiftKey = False,
      capsLock = False, target = t\<rparr>"

definition keyWithCtrl :: "string \<Rightarrow> node \<Rightarrow> keyboardEvent" where
  "keyWithCtrl k t =
     \<lparr>key = k, ctrlKey = True, metaKey = False, altKey = False, shiftKey = False,
      capsLock = False, target = t\<rparr>"

definition bodyNode :: node where
  "bodyNode = node smallDocument"

definition inputNode :: node where
  "inputNode =
     \<lparr>ident = 3, tagName = ''INPUT'', attributes = [(''type'', ''text'')], display = ''block'',
      visibility = ''visible'', offsetParentNull = False, isContentEditable = False\<rparr>"

text \<open>
  The keys \<open>h\<close>, then Ctrl+\<open>/\<close>, then Escape on the small page. The first lands on
  the body, the second on the heading that has focus by then, the third on the close
  button of the dialog.
\<close>

definition focusedHeading :: node where
  "focusedHeading =
     \<lparr>ident = 1, tagName = ''H1'', attributes = [(''tabindex'', ''-1'')], display = ''block'',
      visibility = ''visible'', offsetParentNull = False, isContentEditable = False\<rparr>"

definition closeButtonNode :: node where
  "closeButtonNode =
     \<lparr>ident = 7, tagName = ''BUTTON'',
      attributes =
        [(''id'', ''easynav-help-close''), (''type'', ''button''),
         (''aria-label'', ''Close help dialog'')],
      display = ''flex'', visibility = ''visible'', offsetParentNull = False,
      isContentEditable = False\<rparr>"

definition onHeading :: navigator where
  "onHeading = snd (handleKeyPress (keyAlone ''h'' bodyNode) startState)"

definition dialogOverHeading :: navigator where
  "dialogOverHeading = snd (handleKeyPress (keyWithCtrl ''/'' focusedHeading) onHeading)"

definition afterEscape :: navigator where
  "afterEscape = snd (handleKeyPress (keyAlone ''Escape'' closeButtonNode) dialogOverHeading)"

text \<open>
  The keys \<open>h\<close>, then Alt+Shift+H, then \<open>h\<close> again on the small page. The second
  and the third land on the heading that has focus by then.
\<close>

definition keyWithAltShift :: "string \<Rightarrow> node \<Rightarrow> keyboardEvent" where
  "keyWithAltShift k t =
     \<lparr>key = k, ctrlKey = False, metaKey = False, altKey = True, shiftKey = True,
      capsLock = False, target = t\<rparr>"

definition onMainHeading :: navigator where
  "onMainHeading = snd (handleKeyPress (keyWithAltShift ''H'' focusedHeading) onHeading)"

definition onNextHeading :: navigator where
  "onNextHeading = snd (handleKeyPress (keyAlone ''h'' focusedHeading) onMainHeading)"

section \<open>Properties of the cursors\<close>

lemma nextCursor_mod: "- 1 \<le> c \<Longrightarrow> nextCursor n c = (c + 1) mod int n"
  by (simp add: nextCursor_def jsRemainder_def sgn_if)

lemma previousCursor_mod:
  assumes "0 \<le> c" and "c < int n"
  shows "previousCursor n c = (c - 1) mod int n"
proof (cases "c = 0")
  case True
  from assms have "0 < int n" by simp
  then have "(- 1) mod int n = int n - 1"
    by (simp add: zmod_minus1)
  with True show ?thesis by (simp add: previousCursor_def)
next
  case False
  with assms have "0 \<le> c - 1" and "c - 1 < int n" by simp_all
  then have "(c - 1) mod int n = c - 1" by simp
  with False assms show ?thesis by (simp add: previousCursor_def)
qed

lemma nextCursor_funpow:
  "0 \<le> c \<Longrightarrow> ((nextCursor n) ^^ k) c = (if k = 0 then c else (c + int k) mod int n)"
proof (induction k)
  case 0
  then show ?case by simp
next
  case (Suc k)
  show ?case
  proof (cases "k = 0")
    case True
    with Suc.prems show ?thesis by (simp add: nextCursor_mod)
  next
    case False
    have "- 1 \<le> (c + int k) mod int n"
      by (cases "n = 0") (use Suc.prems in \<open>simp_all add: order_trans [OF _ pos_mod_sign]\<close>)
    then have "nextCursor n ((c + int k) mod int n) = ((c + int k) mod int n + 1) mod int n"
      by (rule nextCursor_mod)
    also have "\<dots> = ((c + int k) + 1) mod int n"
      by (rule mod_add_left_eq)
    also have "(c + int k) + 1 = c + int (Suc k)"
      by simp
    finally show ?thesis using False Suc by simp
  qed
qed

lemma previousCursor_funpow:
  "0 \<le> c \<Longrightarrow> c < int n \<Longrightarrow> ((previousCursor n) ^^ k) c = (c - int k) mod int n"
proof (induction k)
  case 0
  then show ?case by simp
next
  case (Suc k)
  have n: "0 < int n" using Suc.prems by simp
  have "0 \<le> (c - int k) mod int n" and "(c - int k) mod int n < int n"
    using n by simp_all
  then have "previousCursor n ((c - int k) mod int n) = ((c - int k) mod int n - 1) mod int n"
    by (rule previousCursor_mod)
  also have "\<dots> = (c - int (Suc k)) mod int n"
    by (simp add: mod_diff_left_eq algebra_simps)
  finally show ?case using Suc by simp
qed

text \<open>
  C2, as amended. For a list of length \<open>n\<close> and a cursor that is positioned, that is
  \<open>0 \<le> c < n\<close>, applying the \<open>next\<close> assignment \<open>n\<close> times gives the cursor back,
  and so does applying the \<open>prev\<close> assignment \<open>n\<close> times.
\<close>

theorem cursor_cycle:
  assumes "0 \<le> c" and "c < int n"
  shows "((nextCursor n) ^^ n) c = c \<and> ((previousCursor n) ^^ n) c = c"
proof -
  from assms have "n \<noteq> 0" by auto
  with assms have "((nextCursor n) ^^ n) c = (c + int n) mod int n"
    by (simp add: nextCursor_funpow)
  moreover have "((previousCursor n) ^^ n) c = (c - int n) mod int n"
    using assms by (rule previousCursor_funpow)
  ultimately show ?thesis using assms by simp
qed

theorem cursor_cycle_witness:
  "((nextCursor 3) ^^ 3) 1 = 1 \<and> ((previousCursor 3) ^^ 3) 1 = 1"
  using cursor_cycle [of 1 3] by simp

text \<open>
  C2 as stated fails for the cursor of the state without a selection: from \<open>-1\<close> and a
  list of three elements, three \<open>next\<close> steps end at 2 and three \<open>prev\<close> steps end
  at 0.
\<close>

theorem cursor_cycle_counterexample:
  "((nextCursor 3) ^^ 3) (- 1) = 2 \<and> ((nextCursor 3) ^^ 3) (- 1) \<noteq> - 1 \<and>
   ((previousCursor 3) ^^ 3) (- 1) = 0 \<and> ((previousCursor 3) ^^ 3) (- 1) \<noteq> - 1"
  by (simp add: eval_nat_numeral nextCursor_def previousCursor_def jsRemainder_def)

section \<open>Properties of the persisted state\<close>

text \<open>
  C8. When the key \<open>enabled\<close> is missing or undefined, the reply to \<open>getState\<close> and
  the state the popup loads are both \<open>enabled = true\<close>; the reply is always
  \<open>{ enabled: b }\<close> with \<open>b\<close> the stored boolean when there is one, and true otherwise.
\<close>

theorem getState_default:
  "(st ''enabled'' = None \<or> st ''enabled'' = Some Undefined \<longrightarrow>
      onMessage st ''getState'' = Some \<lparr>enabled = True\<rparr> \<and>
      loadState st = updateButtonState True) \<and>
   onMessage st ''getState'' =
      Some \<lparr>enabled = (case st ''enabled'' of Some (Boolean b) \<Rightarrow> b | _ \<Rightarrow> True)\<rparr> \<and>
   loadState st =
      updateButtonState (case st ''enabled'' of Some (Boolean b) \<Rightarrow> b | _ \<Rightarrow> True)"
  by (auto simp: onMessage_def loadState_def storageGet_def split: option.splits jsValue.splits)

theorem getState_default_witness:
  "onMessage Map.empty ''getState'' = Some \<lparr>enabled = True\<rparr> \<and>
   loadState Map.empty = \<lparr>textContent = ''Disable Extension'', ariaPressed = ''true''\<rparr> \<and>
   onMessage [''enabled'' \<mapsto> Boolean False] ''getState'' = Some \<lparr>enabled = False\<rparr> \<and>
   loadState [''enabled'' \<mapsto> Boolean False] =
     \<lparr>textContent = ''Enable Extension'', ariaPressed = ''false''\<rparr>"
  using getState_default [of Map.empty] getState_default [of "[''enabled'' \<mapsto> Boolean False]"]
  by (simp add: updateButtonState_def)

section \<open>Lists of elements: index, duplicates, sorting\<close>

lemma indexOf_range: "indexOf xs i = - 1 \<or> (0 \<le> indexOf xs i \<and> indexOf xs i < int (length xs))"
  by (induction xs) (auto simp: Let_def)

lemma indexOf_nonneg_iff: "0 \<le> indexOf xs i \<longleftrightarrow> i \<in> ident ` set xs"
  by (induction xs) (auto simp: Let_def)

lemma indexOf_absent: "i \<notin> ident ` set xs \<Longrightarrow> indexOf xs i = - 1"
  using indexOf_range [of xs i] indexOf_nonneg_iff [of xs i] by auto

lemma indexOf_append:
  "indexOf (xs @ ys) i =
     (if i \<in> ident ` set xs then indexOf xs i
      else (let r = indexOf ys i in if r < 0 then - 1 else int (length xs) + r))"
proof (induction xs)
  case Nil
  show ?case using indexOf_range [of ys i] by (auto simp: Let_def)
next
  case (Cons x xs)
  show ?case
  proof (cases "ident x = i")
    case True
    then show ?thesis by simp
  next
    case False
    show ?thesis
    proof (cases "i \<in> ident ` set xs")
      case True
      with False Cons show ?thesis by (simp add: Let_def)
    next
      case notin: False
      with False Cons show ?thesis
        using indexOf_range [of ys i] by (auto simp: Let_def)
    qed
  qed
qed

lemma indexOf_nth:
  "distinct (map ident xs) \<Longrightarrow> k < length xs \<Longrightarrow> indexOf xs (ident (xs ! k)) = int k"
proof (induction xs arbitrary: k)
  case Nil
  then show ?case by simp
next
  case (Cons x xs)
  show ?case
  proof (cases k)
    case 0
    then show ?thesis by simp
  next
    case (Suc j)
    with Cons.prems have j: "j < length xs" and d: "distinct (map ident xs)"
      and nx: "ident x \<notin> ident ` set xs" by auto
    from j have "xs ! j \<in> set xs" by simp
    with nx have "ident x \<noteq> ident (xs ! j)" by auto
    with Cons.IH [OF d j] Suc show ?thesis by (simp add: Let_def)
  qed
qed

lemma removeDuplicates_snoc:
  "removeDuplicates (xs @ [x]) =
     removeDuplicates xs @ (if ident x \<in> ident ` set xs then [] else [x])"
proof -
  let ?n = "length xs"
  have z: "zip (xs @ [x]) [0..<length (xs @ [x])] = zip xs [0..<?n] @ [(x, ?n)]"
    by simp
  have old: "filter (\<lambda>(y, index). indexOf (xs @ [x]) (ident y) = int index) (zip xs [0..<?n]) =
             filter (\<lambda>(y, index). indexOf xs (ident y) = int index) (zip xs [0..<?n])"
  proof (rule filter_cong [OF refl])
    fix p assume p: "p \<in> set (zip xs [0..<?n])"
    obtain y j where "p = (y, j)" by (cases p)
    with p have "fst p \<in> set xs" by (auto dest: set_zip_leftD)
    then show "(case p of (y, index) \<Rightarrow> indexOf (xs @ [x]) (ident y) = int index) =
               (case p of (y, index) \<Rightarrow> indexOf xs (ident y) = int index)"
      by (cases p) (simp add: indexOf_append)
  qed
  have new: "indexOf (xs @ [x]) (ident x) = int ?n \<longleftrightarrow> ident x \<notin> ident ` set xs"
    using indexOf_range [of xs "ident x"] indexOf_nonneg_iff [of xs "ident x"]
    by (auto simp: indexOf_append Let_def)
  show ?thesis
    unfolding removeDuplicates_def z filter_append map_append old
    using new by simp
qed

lemma removeDuplicates_Nil: "removeDuplicates [] = []"
  by (simp add: removeDuplicates_def)

lemma removeDuplicates_subset: "set (removeDuplicates xs) \<subseteq> set xs"
  by (induction xs rule: rev_induct) (auto simp: removeDuplicates_snoc removeDuplicates_Nil)

lemma removeDuplicates_idents: "ident ` set (removeDuplicates xs) = ident ` set xs"
  by (induction xs rule: rev_induct) (auto simp: removeDuplicates_snoc removeDuplicates_Nil)

lemma removeDuplicates_distinct: "distinct (map ident (removeDuplicates xs))"
proof (induction xs rule: rev_induct)
  case Nil
  show ?case by (simp add: removeDuplicates_Nil)
next
  case (snoc x xs)
  then show ?case
    using removeDuplicates_idents [of xs] by (auto simp: removeDuplicates_snoc)
qed

lemma removeDuplicates_set:
  assumes "inj_on ident (set xs)"
  shows "set (removeDuplicates xs) = set xs"
proof
  show "set (removeDuplicates xs) \<subseteq> set xs" by (rule removeDuplicates_subset)
  show "set xs \<subseteq> set (removeDuplicates xs)"
  proof
    fix x assume x: "x \<in> set xs"
    then have "ident x \<in> ident ` set (removeDuplicates xs)"
      by (simp add: removeDuplicates_idents)
    then obtain y where y: "y \<in> set (removeDuplicates xs)" and "ident y = ident x" by auto
    moreover from y have "y \<in> set xs" using removeDuplicates_subset by auto
    ultimately have "y = x" using assms x by (auto dest: inj_onD)
    with y show "x \<in> set (removeDuplicates xs)" by simp
  qed
qed

lemma insertSorted_set: "set (insertSorted cmp x ys) = insert x (set ys)"
  by (induction ys) auto

lemma insertSorted_distinct:
  "distinct (map f (insertSorted cmp x ys)) \<longleftrightarrow> f x \<notin> f ` set ys \<and> distinct (map f ys)"
  by (induction ys) (auto simp: insertSorted_set)

lemma sortWith_set: "set (sortWith cmp xs) = set xs"
  by (induction xs) (simp_all add: sortWith_def insertSorted_set)

lemma sortWith_distinct: "distinct (map f (sortWith cmp xs)) \<longleftrightarrow> distinct (map f xs)"
  by (induction xs) (simp_all add: sortWith_def insertSorted_distinct sortWith_set [unfolded sortWith_def])

lemma insertSorted_sorted:
  assumes "\<And>a b. a \<in> insert x (set ys) \<Longrightarrow> b \<in> insert x (set ys) \<Longrightarrow> (cmp a b \<le> 0) = (k a \<le> (k b :: int))"
    and "sorted (map k ys)"
  shows "sorted (map k (insertSorted cmp x ys))"
  using assms
proof (induction ys)
  case Nil
  then show ?case by simp
next
  case (Cons y ys)
  show ?case
  proof (cases "cmp x y \<le> 0")
    case True
    with Cons.prems(1) [of x y] have "k x \<le> k y" by simp
    with True Cons.prems(2) show ?thesis by auto
  next
    case False
    with Cons.prems(1) [of x y] have xy: "k y \<le> k x" by simp
    have "sorted (map k (insertSorted cmp x ys))"
      using Cons.prems by (intro Cons.IH) auto
    with False xy Cons.prems(2) show ?thesis
      by (auto simp: insertSorted_set)
  qed
qed

lemma sortWith_sorted:
  assumes "\<And>a b. a \<in> set xs \<Longrightarrow> b \<in> set xs \<Longrightarrow> (cmp a b \<le> 0) = (k a \<le> (k b :: int))"
  shows "sorted (map k (sortWith cmp xs))"
  using assms
proof (induction xs)
  case Nil
  then show ?case by (simp add: sortWith_def)
next
  case (Cons x xs)
  have ih: "sorted (map k (sortWith cmp xs))"
    using Cons.prems by (intro Cons.IH) auto
  have "sorted (map k (insertSorted cmp x (sortWith cmp xs)))"
    using Cons.prems by (intro insertSorted_sorted ih) (auto simp: sortWith_set)
  then show ?case by (simp add: sortWith_def)
qed

lemmas DOCUMENT_POSITION_defs =
  DOCUMENT_POSITION_FOLLOWING_def DOCUMENT_POSITION_PRECEDING_def
  DOCUMENT_POSITION_CONTAINS_def DOCUMENT_POSITION_CONTAINED_BY_def

lemma indexOf_ident:
  "0 \<le> indexOf xs i \<Longrightarrow> ident (xs ! nat (indexOf xs i)) = i"
proof (induction xs)
  case Nil
  then show ?case by simp
next
  case (Cons x xs)
  show ?case
  proof (cases "ident x = i")
    case True
    then show ?thesis by simp
  next
    case False
    with Cons.prems have r: "0 \<le> indexOf xs i"
      by (simp add: Let_def split: if_splits)
    then have "nat (indexOf xs i + 1) = Suc (nat (indexOf xs i))" by simp
    with False r Cons.IH [OF r] show ?thesis by (simp add: Let_def)
  qed
qed

lemma indexOf_eq_imp:
  assumes "indexOf xs i = indexOf xs j" and "0 \<le> indexOf xs i"
  shows "i = j"
proof -
  from assms have "0 \<le> indexOf xs j" by simp
  then have "j = ident (xs ! nat (indexOf xs j))" by (rule indexOf_ident [symmetric])
  also have "\<dots> = ident (xs ! nat (indexOf xs i))" by (simp only: assms(1))
  also from assms(2) have "\<dots> = i" by (rule indexOf_ident)
  finally show ?thesis by (rule sym)
qed

lemma byDocumentOrder_le:
  assumes "a \<in> set (nodes doc)" and "b \<in> set (nodes doc)"
  shows "(byDocumentOrder doc a b \<le> 0) =
         (indexOf (nodes doc) (ident a) \<le> indexOf (nodes doc) (ident b))"
proof (cases "ident a = ident b")
  case True
  then show ?thesis by (simp add: byDocumentOrder_def compareDocumentPosition_def)
next
  case False
  have ia: "0 \<le> indexOf (nodes doc) (ident a)"
    using assms by (auto simp: indexOf_nonneg_iff)
  with False have ne: "indexOf (nodes doc) (ident a) \<noteq> indexOf (nodes doc) (ident b)"
    using indexOf_eq_imp by blast
  show ?thesis
  proof (cases "indexOf (nodes doc) (ident a) < indexOf (nodes doc) (ident b)")
    case True
    with False show ?thesis
      by (cases "containsNode doc (ident a) (ident b)")
        (simp_all add: byDocumentOrder_def compareDocumentPosition_def DOCUMENT_POSITION_defs)
  next
    case ge: False
    with ne have "\<not> indexOf (nodes doc) (ident a) \<le> indexOf (nodes doc) (ident b)" by simp
    with False ge show ?thesis
      by (cases "containsNode doc (ident b) (ident a)")
        (simp_all add: byDocumentOrder_def compareDocumentPosition_def DOCUMENT_POSITION_defs)
  qed
qed

lemma sorted_strict:
  assumes "sorted (map k xs)" and "distinct (map k xs)"
  shows "sorted_wrt (\<lambda>a b. k a < (k b :: int)) xs"
  using assms by (induction xs) (auto simp: order_less_le)

lemma collect_sorted:
  assumes wf: "distinct (map ident (nodes doc))" and sub: "set xs \<subseteq> set (nodes doc)"
  shows "set (sortWith (byDocumentOrder doc) (filter isVisible (removeDuplicates xs))) =
           {n \<in> set xs. isVisible n}"
    and "distinct (map ident (sortWith (byDocumentOrder doc) (filter isVisible (removeDuplicates xs))))"
    and "sorted_wrt (\<lambda>a b. indexOf (nodes doc) (ident a) < indexOf (nodes doc) (ident b))
           (sortWith (byDocumentOrder doc) (filter isVisible (removeDuplicates xs)))"
proof -
  let ?v = "filter isVisible (removeDuplicates xs)"
  let ?r = "sortWith (byDocumentOrder doc) ?v"
  let ?k = "\<lambda>n. indexOf (nodes doc) (ident n)"
  from wf have inj: "inj_on ident (set (nodes doc))" by (simp add: distinct_map)
  have injx: "inj_on ident (set xs)" by (rule inj_on_subset [OF inj sub])
  show "set ?r = {n \<in> set xs. isVisible n}"
    by (auto simp: sortWith_set removeDuplicates_set [OF injx])
  have dv: "distinct (map ident ?v)"
    using removeDuplicates_distinct [of xs] by (simp add: distinct_map_filter)
  then show dr: "distinct (map ident ?r)" by (simp add: sortWith_distinct)
  have vsub: "set ?v \<subseteq> set (nodes doc)"
    using removeDuplicates_subset [of xs] sub by auto
  have s: "sorted (map ?k ?r)"
    by (rule sortWith_sorted) (use vsub in \<open>auto intro!: byDocumentOrder_le\<close>)
  have rsub: "set ?r \<subseteq> set (nodes doc)" using vsub by (simp add: sortWith_set)
  have "distinct (map ?k ?r)"
  proof -
    have "inj_on ?k (set ?r)"
    proof (rule inj_onI)
      fix a b assume a: "a \<in> set ?r" and b: "b \<in> set ?r" and e: "?k a = ?k b"
      from a rsub have "0 \<le> ?k a" by (auto simp: indexOf_nonneg_iff)
      with e have "ident a = ident b" using indexOf_eq_imp by blast
      moreover from a b rsub have "a \<in> set (nodes doc)" "b \<in> set (nodes doc)" by auto
      ultimately show "a = b" using inj by (auto dest: inj_onD)
    qed
    moreover from dr have "distinct ?r" by (simp add: distinct_map)
    ultimately show ?thesis by (simp add: distinct_map)
  qed
  with s show "sorted_wrt (\<lambda>a b. ?k a < ?k b) ?r" by (rule sorted_strict)
qed


section \<open>Properties of the collectors\<close>

text \<open>
  C1. On a page whose elements are distinct objects, \<open>getAllHeadings\<close> returns exactly
  the elements that are a native heading (\<open>h1\<close> to \<open>h6\<close>) or carry the role
  \<open>heading\<close> and that are not hidden (computed \<open>display\<close> is not \<open>none\<close>, computed
  \<open>visibility\<close> is not \<open>hidden\<close>, \<open>aria-hidden\<close> is not \<open>true\<close>); no element occurs
  twice; and the list is in strictly ascending document order.
\<close>

theorem getAllHeadings_correct:
  assumes "distinct (map ident (nodes doc))"
  shows "set (getAllHeadings doc) =
           {n \<in> set (nodes doc).
              (hasTag [''H1'', ''H2'', ''H3'', ''H4'', ''H5'', ''H6''] n \<or> hasRole ''heading'' n) \<and>
              display n \<noteq> ''none'' \<and> visibility n \<noteq> ''hidden'' \<and>
              getAttribute n ''aria-hidden'' \<noteq> Some ''true''} \<and>
         distinct (map ident (getAllHeadings doc)) \<and>
         sorted_wrt (precedes doc) (getAllHeadings doc)"
proof -
  let ?xs = "querySelectorAll (hasTag [''H1'', ''H2'', ''H3'', ''H4'', ''H5'', ''H6'']) doc @
             querySelectorAll (hasRole ''heading'') doc"
  have g: "getAllHeadings doc = sortWith (byDocumentOrder doc) (filter isVisible (removeDuplicates ?xs))"
    by (simp add: getAllHeadings_def Let_def)
  have sub: "set ?xs \<subseteq> set (nodes doc)"
    by (auto simp: querySelectorAll_def)
  note c = collect_sorted [OF assms sub]
  have "set (getAllHeadings doc) = {n \<in> set ?xs. isVisible n}"
    unfolding g by (rule c(1))
  moreover have "distinct (map ident (getAllHeadings doc))"
    unfolding g by (rule c(2))
  moreover have "sorted_wrt (precedes doc) (getAllHeadings doc)"
    unfolding g precedes_def by (rule c(3))
  ultimately show ?thesis
    by (auto simp: querySelectorAll_def isVisible_def)
qed

theorem getAllHeadings_correct_witness:
  "distinct (map ident (nodes exampleDocument)) \<and>
   map ident (getAllHeadings exampleDocument) = [2, 7, 12] \<and>
   distinct (map ident (getAllHeadings exampleDocument)) \<and>
   sorted_wrt (precedes exampleDocument) (getAllHeadings exampleDocument)"
proof -
  have d: "distinct (map ident (nodes exampleDocument))" by code_simp
  have e: "map ident (getAllHeadings exampleDocument) = [2, 7, 12]" by code_simp
  from getAllHeadings_correct [OF d]
  have "distinct (map ident (getAllHeadings exampleDocument)) \<and>
        sorted_wrt (precedes exampleDocument) (getAllHeadings exampleDocument)"
    by blast
  with d e show ?thesis by blast
qed

text \<open>
  C7, as amended. On a page whose elements are distinct objects, \<open>getAllLandmarks\<close>
  returns exactly the visible elements that carry one of the eight landmark roles, or
  are a \<open>header\<close> or \<open>footer\<close> with no \<open>article\<close> or \<open>section\<close> around them, or are
  a \<open>nav\<close>, \<open>main\<close> or \<open>aside\<close> wherever they are, or are a \<open>section\<close> or \<open>form\<close>
  with \<open>aria-label\<close> or \<open>aria-labelledby\<close>; no element occurs twice; and the list is
  in strictly ascending document order.
\<close>

theorem getAllLandmarks_correct:
  assumes "distinct (map ident (nodes doc))"
  shows "set (getAllLandmarks doc) =
           {n \<in> set (nodes doc).
              ((\<exists>role \<in> set ariaLandmarkRoles. getAttribute n ''role'' = Some role) \<or>
               (tagName n \<in> {''HEADER'', ''FOOTER''} \<and>
                  closest (hasTag [''ARTICLE'', ''SECTION'']) doc n = None) \<or>
               tagName n \<in> {''NAV'', ''MAIN'', ''ASIDE''} \<or>
               (tagName n \<in> {''SECTION'', ''FORM''} \<and>
                  (hasAttribute n ''aria-label'' \<or> hasAttribute n ''aria-labelledby''))) \<and>
              display n \<noteq> ''none'' \<and> visibility n \<noteq> ''hidden'' \<and>
              getAttribute n ''aria-hidden'' \<noteq> Some ''true''} \<and>
         distinct (map ident (getAllLandmarks doc)) \<and>
         sorted_wrt (precedes doc) (getAllLandmarks doc)"
proof -
  let ?xs = "concat (map (\<lambda>role. querySelectorAll (hasRole role) doc) ariaLandmarkRoles) @
             filter (notNested doc) (querySelectorAll (hasTag [''HEADER'']) doc) @
             querySelectorAll (hasTag [''NAV'']) doc @
             querySelectorAll (hasTag [''MAIN'']) doc @
             filter (notNested doc) (querySelectorAll (hasTag [''FOOTER'']) doc) @
             querySelectorAll (hasTag [''ASIDE'']) doc @
             querySelectorAll (\<lambda>n. hasTag [''SECTION''] n \<and> isLabelled n) doc @
             querySelectorAll (\<lambda>n. hasTag [''FORM''] n \<and> isLabelled n) doc"
  have g: "getAllLandmarks doc =
             sortWith (byDocumentOrder doc) (filter isVisible (removeDuplicates ?xs))"
    by (simp add: getAllLandmarks_def Let_def)
  have sub: "set ?xs \<subseteq> set (nodes doc)"
    by (auto simp: querySelectorAll_def)
  note c = collect_sorted [OF assms sub]
  have "set (getAllLandmarks doc) = {n \<in> set ?xs. isVisible n}"
    unfolding g by (rule c(1))
  moreover have "distinct (map ident (getAllLandmarks doc))"
    unfolding g by (rule c(2))
  moreover have "sorted_wrt (precedes doc) (getAllLandmarks doc)"
    unfolding g precedes_def by (rule c(3))
  moreover have "{n \<in> set ?xs. isVisible n} =
           {n \<in> set (nodes doc).
              ((\<exists>role \<in> set ariaLandmarkRoles. getAttribute n ''role'' = Some role) \<or>
               (tagName n \<in> {''HEADER'', ''FOOTER''} \<and>
                  closest (hasTag [''ARTICLE'', ''SECTION'']) doc n = None) \<or>
               tagName n \<in> {''NAV'', ''MAIN'', ''ASIDE''} \<or>
               (tagName n \<in> {''SECTION'', ''FORM''} \<and>
                  (hasAttribute n ''aria-label'' \<or> hasAttribute n ''aria-labelledby''))) \<and>
              display n \<noteq> ''none'' \<and> visibility n \<noteq> ''hidden'' \<and>
              getAttribute n ''aria-hidden'' \<noteq> Some ''true''}"
    by (auto simp: querySelectorAll_def isVisible_def hasTag_def hasRole_def notNested_def
        isLabelled_def)
  ultimately show ?thesis by simp
qed

theorem getAllLandmarks_correct_witness:
  "distinct (map ident (nodes exampleDocument)) \<and>
   map ident (getAllLandmarks exampleDocument) = [1, 3, 4, 8, 13, 14, 16, 17] \<and>
   distinct (map ident (getAllLandmarks exampleDocument)) \<and>
   sorted_wrt (precedes exampleDocument) (getAllLandmarks exampleDocument)"
proof -
  have d: "distinct (map ident (nodes exampleDocument))" by code_simp
  have e: "map ident (getAllLandmarks exampleDocument) = [1, 3, 4, 8, 13, 14, 16, 17]" by code_simp
  from getAllLandmarks_correct [OF d]
  have "distinct (map ident (getAllLandmarks exampleDocument)) \<and>
        sorted_wrt (precedes exampleDocument) (getAllLandmarks exampleDocument)"
    by blast
  with d e show ?thesis by blast
qed

text \<open>
  C7 as stated fails: the \<open>nav\<close> inside the article of the example page has no role
  attribute and is nested in an \<open>article\<close>, and it is among the landmarks.
\<close>

theorem getAllLandmarks_counterexample:
  "nestedNav \<in> set (getAllLandmarks exampleDocument) \<and>
   tagName nestedNav = ''NAV'' \<and>
   getAttribute nestedNav ''role'' = None \<and>
   map_option ident (closest (hasTag [''ARTICLE'', ''SECTION'']) exampleDocument nestedNav) = Some 5"
  by code_simp

section \<open>Attributes, blur and focus\<close>

lemma nodes_updateNode:
  "nodes (updateNode i f e) = map (\<lambda>n. if ident n = i then f n else n) (nodes e)"
proof (induction e)
  case (Element n cs)
  have "concat (map nodes (map (updateNode i f) cs)) =
        concat (map (map (\<lambda>n. if ident n = i then f n else n)) (map nodes cs))"
    using Element.IH by (induction cs) simp_all
  then show ?case by (simp add: map_concat)
qed

lemma find_map_option:
  "find P (map g xs) = map_option g (find (P \<circ> g) xs)"
  by (induction xs) simp_all

lemma findNode_updateNode:
  assumes "\<And>n. ident (f n) = ident n"
  shows "findNode j (updateNode i f e) =
         map_option (\<lambda>n. if ident n = i then f n else n) (findNode j e)"
proof -
  have "(\<lambda>n. ident n = j) \<circ> (\<lambda>n. if ident n = i then f n else n) = (\<lambda>n. ident n = j)"
    using assms by (auto simp: fun_eq_iff)
  then show ?thesis
    by (simp add: findNode_def nodes_updateNode find_map_option)
qed

lemma findNode_ident: "findNode j e = Some n \<Longrightarrow> ident n = j"
  by (auto simp: findNode_def find_Some_iff)

lemma attributeOf_setAttribute:
  "attributeOf j name (setAttribute i name' v p) =
     (if i = j \<and> name = name' \<and> findNode j (body p) \<noteq> None then Some v
      else attributeOf j name p)"
  by (auto simp: attributeOf_def setAttribute_def findNode_updateNode getAttribute_def
      update_conv' dest: findNode_ident split: option.splits)

lemma attributeOf_removeAttribute:
  "attributeOf j name (removeAttribute i name' p) =
     (if i = j \<and> name = name' then None else attributeOf j name p)"
  by (auto simp: attributeOf_def removeAttribute_def findNode_updateNode getAttribute_def
      delete_conv' dest: findNode_ident split: option.splits)

lemma findNode_setAttribute:
  "findNode j (body (setAttribute i name v p)) = None \<longleftrightarrow> findNode j (body p) = None"
  by (simp add: setAttribute_def findNode_updateNode)

lemma findNode_removeAttribute:
  "findNode j (body (removeAttribute i name p)) = None \<longleftrightarrow> findNode j (body p) = None"
  by (simp add: removeAttribute_def findNode_updateNode)

lemma setAttribute_fields:
  "activeElement (setAttribute i name v p) = activeElement p"
  "blurListeners (setAttribute i name v p) = blurListeners p"
  by (simp_all add: setAttribute_def)

lemma removeAttribute_fields:
  "activeElement (removeAttribute i name p) = activeElement p"
  "blurListeners (removeAttribute i name p) = blurListeners p"
  by (simp_all add: removeAttribute_def)

lemma runBlurListener_fields:
  "activeElement (runBlurListener i l p) = activeElement p"
  "blurListeners (runBlurListener i l p) = blurListeners p"
  "findNode j (body (runBlurListener i l p)) = None \<longleftrightarrow> findNode j (body p) = None"
  by (induction i l p rule: runBlurListener.induct;
      simp add: setAttribute_fields removeAttribute_fields findNode_setAttribute
        findNode_removeAttribute)+


lemma attributeOf_runBlurListener_other:
  "j \<noteq> i \<Longrightarrow> attributeOf j name (runBlurListener i l p) = attributeOf j name p"
  by (induction i l p rule: runBlurListener.induct)
    (simp_all add: attributeOf_setAttribute attributeOf_removeAttribute)

lemma runBlurListeners_fields:
  "activeElement (foldl (\<lambda>q l. runBlurListener i l q) p ls) = activeElement p"
  "blurListeners (foldl (\<lambda>q l. runBlurListener i l q) p ls) = blurListeners p"
  "findNode j (body (foldl (\<lambda>q l. runBlurListener i l q) p ls)) = None \<longleftrightarrow>
     findNode j (body p) = None"
  by (induction ls arbitrary: p) (simp_all add: runBlurListener_fields)

lemma attributeOf_runBlurListeners_other:
  "j \<noteq> i \<Longrightarrow>
   attributeOf j name (foldl (\<lambda>q l. runBlurListener i l q) p ls) = attributeOf j name p"
  by (induction ls arbitrary: p) (simp_all add: attributeOf_runBlurListener_other)

lemma attributeOf_blurListeners_update [simp]:
  "attributeOf j name (p\<lparr>blurListeners := f\<rparr>) = attributeOf j name p"
  "attributeOf j name (p\<lparr>activeElement := a\<rparr>) = attributeOf j name p"
  by (simp_all add: attributeOf_def)

lemma dispatchBlur_fields:
  "activeElement (dispatchBlur i p) = activeElement p"
  "blurListeners (dispatchBlur i p) = (blurListeners p)(i := [])"
  "findNode j (body (dispatchBlur i p)) = None \<longleftrightarrow> findNode j (body p) = None"
  by (simp_all add: dispatchBlur_def runBlurListeners_fields)

lemma attributeOf_dispatchBlur_other:
  "j \<noteq> i \<Longrightarrow> attributeOf j name (dispatchBlur i p) = attributeOf j name p"
  by (simp add: dispatchBlur_def attributeOf_runBlurListeners_other)

lemma attributeOf_dispatchBlur_none:
  "blurListeners p i = [] \<Longrightarrow> attributeOf j name (dispatchBlur i p) = attributeOf j name p"
  by (simp add: dispatchBlur_def)

lemma attributeOf_dispatchBlur_remove:
  "blurListeners p i = ls @ [RemoveTabindex] \<Longrightarrow>
   attributeOf i ''tabindex'' (dispatchBlur i p) = None"
  by (simp add: dispatchBlur_def attributeOf_removeAttribute)

lemma focus_cases:
  "focus i p = p \<or> focus i p = (dispatchBlur (activeElement p) p)\<lparr>activeElement := i\<rparr> \<and> activeElement p \<noteq> i"
  by (auto simp: focus_def split: option.splits)

lemma attributeOf_focus:
  "attributeOf i name (focus i p) = attributeOf i name p"
  using focus_cases [of i p] by (auto simp: attributeOf_dispatchBlur_other)

lemma blurListeners_focus:
  "blurListeners (focus i p) i = blurListeners p i"
  using focus_cases [of i p] by (auto simp: dispatchBlur_fields)

lemma activeElement_focus:
  assumes "findNode i (body p) = Some n" and "isFocusable (body p) n"
  shows "activeElement (focus i p) = i"
  using assms by (simp add: focus_def)

lemma findNode_focus:
  "findNode j (body (focus i p)) = None \<longleftrightarrow> findNode j (body p) = None"
  using focus_cases [of i p] by (auto simp: dispatchBlur_fields)

text \<open>None of these operations adds or removes an element.\<close>

lemma idents_updateNode:
  assumes "\<And>n. ident (f n) = ident n"
  shows "map ident (nodes (updateNode i f e)) = map ident (nodes e)"
  using assms by (simp add: nodes_updateNode)

lemma idents_setAttribute:
  "map ident (nodes (body (setAttribute i name v p))) = map ident (nodes (body p))"
  by (simp add: setAttribute_def idents_updateNode)

lemma idents_removeAttribute:
  "map ident (nodes (body (removeAttribute i name p))) = map ident (nodes (body p))"
  by (simp add: removeAttribute_def idents_updateNode)

lemma idents_runBlurListener:
  "map ident (nodes (body (runBlurListener i l p))) = map ident (nodes (body p))"
  by (induction i l p rule: runBlurListener.induct)
    (simp_all add: idents_setAttribute idents_removeAttribute)

lemma idents_runBlurListeners:
  "map ident (nodes (body (foldl (\<lambda>q l. runBlurListener i l q) p ls))) =
     map ident (nodes (body p))"
  by (induction ls arbitrary: p) (simp_all add: idents_runBlurListener)

lemma idents_dispatchBlur:
  "map ident (nodes (body (dispatchBlur i p))) = map ident (nodes (body p))"
  by (simp add: dispatchBlur_def idents_runBlurListeners)

lemma idents_focus:
  "map ident (nodes (body (focus i p))) = map ident (nodes (body p))"
  using focus_cases [of i p] by (auto simp: idents_dispatchBlur)

lemma idents_focusFallback:
  "map ident (nodes (body (focusFallback p))) = map ident (nodes (body p))"
  by (simp add: focusFallback_def idents_focus split: option.splits)

text \<open>\<open>removeElement\<close> leaves no element with the removed identity below the root.\<close>

lemma removeElement_node: "node (removeElement i e) = node e"
  by (cases e) simp

lemma removeElement_gone:
  "ident (node e) \<noteq> i \<Longrightarrow> i \<notin> set (map ident (nodes (removeElement i e)))"
proof (induction e)
  case (Element n cs)
  have "i \<notin> set (map ident (nodes (removeElement i c)))"
    if "c \<in> set cs" and "ident (node c) \<noteq> i" for c
    using that Element.IH by blast
  with Element.prems show ?case by auto
qed

lemma removeElement_below:
  "i \<notin> set (map ident (tl (nodes (removeElement i e))))"
proof (cases e)
  case (Element n cs)
  have "i \<notin> set (map ident (nodes (removeElement i c)))"
    if "c \<in> set cs" and "ident (node c) \<noteq> i" for c
    using that by (simp only: removeElement_gone not_False_eq_True)
  with Element show ?thesis by auto
qed

section \<open>The module-level variables under the operations\<close>

lemma closeButton_found:
  "\<exists>b. querySelector (hasId ''easynav-help-close'') (fst (createElements k (helpDialogMarkup d))) = Some b"
  by (simp add: helpDialogMarkup_def markup_def querySelector_def hasId_def getAttribute_def
      split: prod.splits)

lemma dialog_ident:
  "ident (node (fst (createElements k m))) = k"
  by (cases m) (simp add: split: prod.splits)


lemma nextCursor_lower: "n \<noteq> 0 \<Longrightarrow> - 1 \<le> c \<Longrightarrow> 0 \<le> nextCursor n c"
  by (simp add: nextCursor_mod)

lemma previousCursor_lower: "n \<noteq> 0 \<Longrightarrow> - 1 \<le> c \<Longrightarrow> 0 \<le> previousCursor n c"
  by (simp add: previousCursor_def)

lemma navigateToNextHeading_fields:
  "currentHeadingIndex (navigateToNextHeading s) =
     (if getAllHeadings (body (page s)) = [] then currentHeadingIndex s
      else nextCursor (length (getAllHeadings (body (page s)))) (currentHeadingIndex s))"
  "currentLandmarkIndex (navigateToNextHeading s) = currentLandmarkIndex s"
  "helpDialogOpen (navigateToNextHeading s) = helpDialogOpen s"
  "helpDialogElement (navigateToNextHeading s) = helpDialogElement s"
  "lastFocusedElement (navigateToNextHeading s) = lastFocusedElement s"
  by (simp_all add: navigateToNextHeading_def Let_def split: option.splits)

lemma navigateToPreviousHeading_fields:
  "currentHeadingIndex (navigateToPreviousHeading s) =
     (if getAllHeadings (body (page s)) = [] then currentHeadingIndex s
      else previousCursor (length (getAllHeadings (body (page s)))) (currentHeadingIndex s))"
  "currentLandmarkIndex (navigateToPreviousHeading s) = currentLandmarkIndex s"
  "helpDialogOpen (navigateToPreviousHeading s) = helpDialogOpen s"
  "helpDialogElement (navigateToPreviousHeading s) = helpDialogElement s"
  "lastFocusedElement (navigateToPreviousHeading s) = lastFocusedElement s"
  by (simp_all add: navigateToPreviousHeading_def Let_def split: option.splits)

lemma navigateToNextLandmark_fields:
  "currentLandmarkIndex (navigateToNextLandmark s) =
     (if getAllLandmarks (body (page s)) = [] then currentLandmarkIndex s
      else nextCursor (length (getAllLandmarks (body (page s)))) (currentLandmarkIndex s))"
  "currentHeadingIndex (navigateToNextLandmark s) = currentHeadingIndex s"
  "helpDialogOpen (navigateToNextLandmark s) = helpDialogOpen s"
  "helpDialogElement (navigateToNextLandmark s) = helpDialogElement s"
  "lastFocusedElement (navigateToNextLandmark s) = lastFocusedElement s"
  by (simp_all add: navigateToNextLandmark_def Let_def split: option.splits)

lemma navigateToPreviousLandmark_fields:
  "currentLandmarkIndex (navigateToPreviousLandmark s) =
     (if getAllLandmarks (body (page s)) = [] then currentLandmarkIndex s
      else previousCursor (length (getAllLandmarks (body (page s)))) (currentLandmarkIndex s))"
  "currentHeadingIndex (navigateToPreviousLandmark s) = currentHeadingIndex s"
  "helpDialogOpen (navigateToPreviousLandmark s) = helpDialogOpen s"
  "helpDialogElement (navigateToPreviousLandmark s) = helpDialogElement s"
  "lastFocusedElement (navigateToPreviousLandmark s) = lastFocusedElement s"
  by (simp_all add: navigateToPreviousLandmark_def Let_def split: option.splits)

lemma onPage_fields:
  "currentHeadingIndex (onPage f s) = currentHeadingIndex s"
  "currentLandmarkIndex (onPage f s) = currentLandmarkIndex s"
  "helpDialogOpen (onPage f s) = helpDialogOpen s"
  "helpDialogElement (onPage f s) = helpDialogElement s"
  "lastFocusedElement (onPage f s) = lastFocusedElement s"
  by (simp_all add: onPage_def)

lemma openHelpDialog_closed:
  assumes "\<not> helpDialogOpen s"
  obtains b where
    "querySelector (hasId ''easynav-help-close'')
       (fst (createElements (nextIdent s) (helpDialogMarkup (DEBUG_FOCUS s)))) = Some b"
    and "openHelpDialog s =
      s\<lparr>lastFocusedElement := Some (activeElement (page s)),
        helpDialogElement := Some (nextIdent s),
        nextIdent := snd (createElements (nextIdent s) (helpDialogMarkup (DEBUG_FOCUS s))),
        page := focus (ident b)
          (appendChild (fst (createElements (nextIdent s) (helpDialogMarkup (DEBUG_FOCUS s))))
             (page s)),
        helpDialogOpen := True\<rparr>"
proof -
  obtain b where b: "querySelector (hasId ''easynav-help-close'')
      (fst (createElements (nextIdent s) (helpDialogMarkup (DEBUG_FOCUS s)))) = Some b"
    using closeButton_found by blast
  moreover have "openHelpDialog s =
      s\<lparr>lastFocusedElement := Some (activeElement (page s)),
        helpDialogElement := Some (nextIdent s),
        nextIdent := snd (createElements (nextIdent s) (helpDialogMarkup (DEBUG_FOCUS s))),
        page := focus (ident b)
          (appendChild (fst (createElements (nextIdent s) (helpDialogMarkup (DEBUG_FOCUS s))))
             (page s)),
        helpDialogOpen := True\<rparr>"
    using assms b by (simp add: openHelpDialog_def Let_def case_prod_beta dialog_ident)
  ultimately show ?thesis by (rule that)
qed

lemma openHelpDialog_opened:
  assumes "\<not> helpDialogOpen s"
  shows "helpDialogOpen (openHelpDialog s)"
    and "helpDialogElement (openHelpDialog s) = Some (nextIdent s)"
    and "lastFocusedElement (openHelpDialog s) = Some (activeElement (page s))"
proof -
  from assms obtain b where
    "querySelector (hasId ''easynav-help-close'')
       (fst (createElements (nextIdent s) (helpDialogMarkup (DEBUG_FOCUS s)))) = Some b"
    and eq: "openHelpDialog s =
      s\<lparr>lastFocusedElement := Some (activeElement (page s)),
        helpDialogElement := Some (nextIdent s),
        nextIdent := snd (createElements (nextIdent s) (helpDialogMarkup (DEBUG_FOCUS s))),
        page := focus (ident b)
          (appendChild (fst (createElements (nextIdent s) (helpDialogMarkup (DEBUG_FOCUS s))))
             (page s)),
        helpDialogOpen := True\<rparr>"
    by (rule openHelpDialog_closed)
  show "helpDialogOpen (openHelpDialog s)" by (simp add: eq)
  show "helpDialogElement (openHelpDialog s) = Some (nextIdent s)" by (simp add: eq)
  show "lastFocusedElement (openHelpDialog s) = Some (activeElement (page s))" by (simp add: eq)
qed

lemma openHelpDialog_already: "helpDialogOpen s \<Longrightarrow> openHelpDialog s = s"
  by (simp add: openHelpDialog_def)

lemma openHelpDialog_cursors:
  "currentHeadingIndex (openHelpDialog s) = currentHeadingIndex s"
  "currentLandmarkIndex (openHelpDialog s) = currentLandmarkIndex s"
  by (simp_all add: openHelpDialog_def Let_def case_prod_beta split: option.splits)

lemma closeHelpDialog_closed: "\<not> helpDialogOpen s \<or> helpDialogElement s = None \<Longrightarrow> closeHelpDialog s = s"
  by (auto simp: closeHelpDialog_def split: option.splits)

lemma closeHelpDialog_open:
  assumes "helpDialogOpen s" and "helpDialogElement s \<noteq> None"
  shows "\<not> helpDialogOpen (closeHelpDialog s)"
    and "helpDialogElement (closeHelpDialog s) = None"
    and "lastFocusedElement (closeHelpDialog s) = None"
  using assms by (auto simp: closeHelpDialog_def Let_def split: option.splits)

lemma closeHelpDialog_cursors:
  "currentHeadingIndex (closeHelpDialog s) = currentHeadingIndex s"
  "currentLandmarkIndex (closeHelpDialog s) = currentLandmarkIndex s"
  by (simp_all add: closeHelpDialog_def Let_def split: option.splits)

lemma order_trans_m1: "(0::int) \<le> x \<Longrightarrow> - 1 \<le> x"
  by simp

lemma cursorInvariant_navigate:
  assumes "cursorInvariant s"
  shows "cursorInvariant (navigateToNextHeading s)"
    and "cursorInvariant (navigateToPreviousHeading s)"
    and "cursorInvariant (navigateToNextLandmark s)"
    and "cursorInvariant (navigateToPreviousLandmark s)"
  using assms
  by (simp_all add: cursorInvariant_def navigateToNextHeading_fields
      navigateToPreviousHeading_fields navigateToNextLandmark_fields
      navigateToPreviousLandmark_fields order_trans_m1 nextCursor_lower previousCursor_lower)

lemma cursorInvariant_dialog:
  assumes "cursorInvariant s"
  shows "cursorInvariant (openHelpDialog s)"
    and "cursorInvariant (closeHelpDialog s)"
    and "cursorInvariant (toggleHelpDialog s)"
    and "cursorInvariant (focusOutCheck s)"
    and "cursorInvariant (onPage f s)"
  using assms
  by (simp_all add: cursorInvariant_def toggleHelpDialog_def focusOutCheck_def Let_def
      openHelpDialog_cursors closeHelpDialog_cursors onPage_fields)

lemma cursorInvariant_handleKeyPress:
  "cursorInvariant s \<Longrightarrow> cursorInvariant (snd (handleKeyPress event s))"
  by (simp add: handleKeyPress_def Let_def cursorInvariant_navigate cursorInvariant_dialog)

lemma reachable_cursorInvariant: "reachable s \<Longrightarrow> cursorInvariant s"
proof (induction rule: reachable.induct)
  case (start mac st doc)
  show ?case by (simp add: cursorInvariant_def initialState_def)
next
  case (keydown s event)
  then show ?case by (simp add: cursorInvariant_handleKeyPress)
next
  case (closeClick s)
  then show ?case by (simp add: cursorInvariant_dialog)
next
  case (debugClick s)
  then show ?case by (simp add: cursorInvariant_def)
next
  case (focusOut s)
  then show ?case by (simp add: cursorInvariant_dialog)
next
  case (environment s p)
  then show ?case by (simp add: cursorInvariant_def)
qed

lemma dialogInvariant_open: "dialogInvariant s \<Longrightarrow> dialogInvariant (openHelpDialog s)"
  by (cases "helpDialogOpen s")
    (simp_all add: openHelpDialog_already dialogInvariant_def openHelpDialog_opened)

lemma dialogInvariant_close: "dialogInvariant s \<Longrightarrow> dialogInvariant (closeHelpDialog s)"
  by (cases "helpDialogOpen s \<and> helpDialogElement s \<noteq> None")
    (auto simp: closeHelpDialog_closed dialogInvariant_def closeHelpDialog_open)

lemma dialogInvariant_toggle: "dialogInvariant s \<Longrightarrow> dialogInvariant (toggleHelpDialog s)"
  by (simp add: toggleHelpDialog_def dialogInvariant_open dialogInvariant_close)

lemma dialogInvariant_focusOutCheck: "dialogInvariant s \<Longrightarrow> dialogInvariant (focusOutCheck s)"
  by (simp add: focusOutCheck_def Let_def dialogInvariant_close)

lemma dialogInvariant_navigate:
  assumes "dialogInvariant s"
  shows "dialogInvariant (navigateToNextHeading s)"
    and "dialogInvariant (navigateToPreviousHeading s)"
    and "dialogInvariant (navigateToNextLandmark s)"
    and "dialogInvariant (navigateToPreviousLandmark s)"
    and "dialogInvariant (onPage f s)"
  using assms
  by (simp_all add: dialogInvariant_def navigateToNextHeading_fields
      navigateToPreviousHeading_fields navigateToNextLandmark_fields
      navigateToPreviousLandmark_fields onPage_fields)

lemma dialogInvariant_handleKeyPress:
  "dialogInvariant s \<Longrightarrow> dialogInvariant (snd (handleKeyPress event s))"
  by (simp add: handleKeyPress_def Let_def dialogInvariant_navigate dialogInvariant_toggle
      dialogInvariant_close)

lemma reachable_dialogInvariant: "reachable s \<Longrightarrow> dialogInvariant s"
proof (induction rule: reachable.induct)
  case (start mac st doc)
  show ?case by (simp add: dialogInvariant_def initialState_def)
next
  case (keydown s event)
  then show ?case by (simp add: dialogInvariant_handleKeyPress)
next
  case (closeClick s)
  then show ?case by (simp add: dialogInvariant_close)
next
  case (debugClick s)
  then show ?case by (simp add: dialogInvariant_def)
next
  case (focusOut s)
  then show ?case by (simp add: dialogInvariant_focusOutCheck)
next
  case (environment s p)
  then show ?case by (simp add: dialogInvariant_def)
qed

section \<open>Properties of the traversal\<close>

lemma reachable_startState: "reachable startState"
  unfolding startState_def by (rule reachable.start)

text \<open>
  The traversal hands \<open>makeElementFocusableAndFocus\<close> an element of the document:
  the one at the new cursor, whenever the new cursor is inside the list.
\<close>

lemma filter_removeDuplicates_subset: "set (filter P (removeDuplicates xs)) \<subseteq> set xs"
  using removeDuplicates_subset [of xs] by auto

lemma getAllHeadings_subset: "set (getAllHeadings doc) \<subseteq> set (nodes doc)"
proof -
  have "set (getAllHeadings doc) \<subseteq>
        set (querySelectorAll (hasTag [''H1'', ''H2'', ''H3'', ''H4'', ''H5'', ''H6'']) doc @
             querySelectorAll (hasRole ''heading'') doc)"
    unfolding getAllHeadings_def Let_def sortWith_set by (rule filter_removeDuplicates_subset)
  then show ?thesis by (auto simp: querySelectorAll_def)
qed

lemma getAllLandmarks_subset: "set (getAllLandmarks doc) \<subseteq> set (nodes doc)"
proof -
  have "set (getAllLandmarks doc) \<subseteq>
        set (concat (map (\<lambda>role. querySelectorAll (hasRole role) doc) ariaLandmarkRoles) @
             filter (notNested doc) (querySelectorAll (hasTag [''HEADER'']) doc) @
             querySelectorAll (hasTag [''NAV'']) doc @
             querySelectorAll (hasTag [''MAIN'']) doc @
             filter (notNested doc) (querySelectorAll (hasTag [''FOOTER'']) doc) @
             querySelectorAll (hasTag [''ASIDE'']) doc @
             querySelectorAll (\<lambda>n. hasTag [''SECTION''] n \<and> isLabelled n) doc @
             querySelectorAll (\<lambda>n. hasTag [''FORM''] n \<and> isLabelled n) doc)"
    unfolding getAllLandmarks_def Let_def sortWith_set by (rule filter_removeDuplicates_subset)
  then show ?thesis by (auto simp: querySelectorAll_def)
qed

lemma findNode_member: "n \<in> set (nodes doc) \<Longrightarrow> findNode (ident n) doc \<noteq> None"
  by (auto simp: findNode_def find_None_iff)

lemma elementAt_member:
  "0 \<le> i \<Longrightarrow> i < int (length xs) \<Longrightarrow> \<exists>x \<in> set xs. elementAt xs i = Some x"
  by (auto simp: elementAt_def)

lemma nextCursor_range:
  assumes "n \<noteq> 0" and "- 1 \<le> c"
  shows "0 \<le> nextCursor n c" and "nextCursor n c < int n"
  using assms by (simp_all add: nextCursor_mod)

lemma navigateToNextHeading_focus:
  assumes "getAllHeadings (body (page s)) \<noteq> []" and "- 1 \<le> currentHeadingIndex s"
  shows "\<exists>h \<in> set (nodes (body (page s))).
           findNode (ident h) (body (page s)) \<noteq> None \<and>
           page (navigateToNextHeading s) = makeElementFocusableAndFocus (ident h) (page s)"
proof -
  let ?hs = "getAllHeadings (body (page s))"
  from assms have "length ?hs \<noteq> 0" by simp
  from nextCursor_range [OF this assms(2)]
  obtain h where h: "h \<in> set ?hs"
    and at: "elementAt ?hs (nextCursor (length ?hs) (currentHeadingIndex s)) = Some h"
    using elementAt_member by blast
  from h have m: "h \<in> set (nodes (body (page s)))" using getAllHeadings_subset by blast
  have "page (navigateToNextHeading s) = makeElementFocusableAndFocus (ident h) (page s)"
    using assms(1) at by (simp add: navigateToNextHeading_def Let_def)
  with m findNode_member [OF m] show ?thesis by blast
qed

lemma navigateToNextLandmark_focus:
  assumes "getAllLandmarks (body (page s)) \<noteq> []" and "- 1 \<le> currentLandmarkIndex s"
  shows "\<exists>h \<in> set (nodes (body (page s))).
           findNode (ident h) (body (page s)) \<noteq> None \<and>
           page (navigateToNextLandmark s) = makeElementFocusableAndFocus (ident h) (page s)"
proof -
  let ?hs = "getAllLandmarks (body (page s))"
  from assms have "length ?hs \<noteq> 0" by simp
  from nextCursor_range [OF this assms(2)]
  obtain h where h: "h \<in> set ?hs"
    and at: "elementAt ?hs (nextCursor (length ?hs) (currentLandmarkIndex s)) = Some h"
    using elementAt_member by blast
  from h have m: "h \<in> set (nodes (body (page s)))" using getAllLandmarks_subset by blast
  have "page (navigateToNextLandmark s) = makeElementFocusableAndFocus (ident h) (page s)"
    using assms(1) at by (simp add: navigateToNextLandmark_def Let_def)
  with m findNode_member [OF m] show ?thesis by blast
qed

lemma navigateToPreviousHeading_focus:
  assumes "getAllHeadings (body (page s)) \<noteq> []" and "- 1 \<le> currentHeadingIndex s"
    and "currentHeadingIndex s \<le> int (length (getAllHeadings (body (page s))))"
  shows "\<exists>h \<in> set (nodes (body (page s))).
           findNode (ident h) (body (page s)) \<noteq> None \<and>
           page (navigateToPreviousHeading s) = makeElementFocusableAndFocus (ident h) (page s)"
proof -
  let ?hs = "getAllHeadings (body (page s))"
  from assms have "0 \<le> previousCursor (length ?hs) (currentHeadingIndex s)"
    and "previousCursor (length ?hs) (currentHeadingIndex s) < int (length ?hs)"
    by (simp_all add: previousCursor_def)
  then obtain h where h: "h \<in> set ?hs"
    and at: "elementAt ?hs (previousCursor (length ?hs) (currentHeadingIndex s)) = Some h"
    using elementAt_member by blast
  from h have m: "h \<in> set (nodes (body (page s)))" using getAllHeadings_subset by blast
  have "page (navigateToPreviousHeading s) = makeElementFocusableAndFocus (ident h) (page s)"
    using assms(1) at by (simp add: navigateToPreviousHeading_def Let_def)
  with m findNode_member [OF m] show ?thesis by blast
qed

lemma navigateToPreviousLandmark_focus:
  assumes "getAllLandmarks (body (page s)) \<noteq> []" and "- 1 \<le> currentLandmarkIndex s"
    and "currentLandmarkIndex s \<le> int (length (getAllLandmarks (body (page s))))"
  shows "\<exists>h \<in> set (nodes (body (page s))).
           findNode (ident h) (body (page s)) \<noteq> None \<and>
           page (navigateToPreviousLandmark s) = makeElementFocusableAndFocus (ident h) (page s)"
proof -
  let ?hs = "getAllLandmarks (body (page s))"
  from assms have "0 \<le> previousCursor (length ?hs) (currentLandmarkIndex s)"
    and "previousCursor (length ?hs) (currentLandmarkIndex s) < int (length ?hs)"
    by (simp_all add: previousCursor_def)
  then obtain h where h: "h \<in> set ?hs"
    and at: "elementAt ?hs (previousCursor (length ?hs) (currentLandmarkIndex s)) = Some h"
    using elementAt_member by blast
  from h have m: "h \<in> set (nodes (body (page s)))" using getAllLandmarks_subset by blast
  have "page (navigateToPreviousLandmark s) = makeElementFocusableAndFocus (ident h) (page s)"
    using assms(1) at by (simp add: navigateToPreviousLandmark_def Let_def)
  with m findNode_member [OF m] show ?thesis by blast
qed

text \<open>
  What \<open>makeElementFocusableAndFocus\<close> does to the \<open>tabindex\<close> of an element of the
  document. With no \<open>tabindex\<close> attribute, it assigns \<open>-1\<close> and registers one
  listener after those already pending; as long as that listener is the last one
  pending on the element, however often the operation is repeated on it, the
  attribute is absent again after the element loses focus, and no listener is left.
  With a \<open>tabindex\<close> attribute, it writes nothing and registers nothing.
\<close>

lemma makeElementFocusableAndFocus_absent:
  assumes "findNode e (body p) \<noteq> None" and "attributeOf e ''tabindex'' p = None"
  shows "attributeOf e ''tabindex'' (makeElementFocusableAndFocus e p) = Some ''-1''"
    and "blurListeners (makeElementFocusableAndFocus e p) e =
           blurListeners p e @ [RemoveTabindex]"
    and "findNode e (body (makeElementFocusableAndFocus e p)) \<noteq> None"
proof -
  let ?p1 = "setAttribute e ''tabindex'' ''-1'' p"
  let ?p2 = "focus e ?p1"
  have p': "makeElementFocusableAndFocus e p = addBlurListener e RemoveTabindex ?p2"
    using assms(2) by (simp add: makeElementFocusableAndFocus_def)
  have "attributeOf e ''tabindex'' ?p1 = Some ''-1''"
    using assms(1) by (simp add: attributeOf_setAttribute)
  then have "attributeOf e ''tabindex'' ?p2 = Some ''-1''"
    by (simp add: attributeOf_focus)
  then show "attributeOf e ''tabindex'' (makeElementFocusableAndFocus e p) = Some ''-1''"
    by (simp add: p' addBlurListener_def)
  have "blurListeners ?p2 e = blurListeners p e"
    by (simp add: blurListeners_focus setAttribute_fields)
  then show "blurListeners (makeElementFocusableAndFocus e p) e =
      blurListeners p e @ [RemoveTabindex]"
    by (simp add: p' addBlurListener_def)
  show "findNode e (body (makeElementFocusableAndFocus e p)) \<noteq> None"
    using assms(1) by (simp add: p' addBlurListener_def findNode_focus findNode_setAttribute)
qed

lemma makeElementFocusableAndFocus_present:
  assumes "attributeOf e ''tabindex'' p \<noteq> None"
  shows "attributeOf e ''tabindex'' (makeElementFocusableAndFocus e p) =
           attributeOf e ''tabindex'' p"
    and "blurListeners (makeElementFocusableAndFocus e p) e = blurListeners p e"
    and "findNode e (body (makeElementFocusableAndFocus e p)) \<noteq> None"
proof -
  have p': "makeElementFocusableAndFocus e p = focus e p"
    using assms by (auto simp: makeElementFocusableAndFocus_def Let_def)
  show "attributeOf e ''tabindex'' (makeElementFocusableAndFocus e p) =
      attributeOf e ''tabindex'' p"
    by (simp add: p' attributeOf_focus)
  show "blurListeners (makeElementFocusableAndFocus e p) e = blurListeners p e"
    by (simp add: p' blurListeners_focus)
  from assms have "findNode e (body p) \<noteq> None"
    by (auto simp: attributeOf_def split: option.splits)
  then show "findNode e (body (makeElementFocusableAndFocus e p)) \<noteq> None"
    by (simp add: p' findNode_focus)
qed

lemma makeElementFocusableAndFocus_repeated:
  assumes "findNode e (body p) \<noteq> None" and "attributeOf e ''tabindex'' p = None"
  shows "attributeOf e ''tabindex'' ((makeElementFocusableAndFocus e ^^ Suc k) p) = Some ''-1'' \<and>
         blurListeners ((makeElementFocusableAndFocus e ^^ Suc k) p) e =
           blurListeners p e @ [RemoveTabindex]"
proof (induction k)
  case 0
  from makeElementFocusableAndFocus_absent [OF assms] show ?case by simp
next
  case (Suc k)
  let ?q = "(makeElementFocusableAndFocus e ^^ Suc k) p"
  from Suc have "attributeOf e ''tabindex'' ?q \<noteq> None" by simp
  from makeElementFocusableAndFocus_present [OF this] Suc show ?case by simp
qed

lemma makeElementFocusableAndFocus_released:
  assumes "findNode e (body p) \<noteq> None" and "attributeOf e ''tabindex'' p = None"
  shows "attributeOf e ''tabindex''
           (dispatchBlur e ((makeElementFocusableAndFocus e ^^ Suc k) p)) = None \<and>
         blurListeners (dispatchBlur e ((makeElementFocusableAndFocus e ^^ Suc k) p)) e = []"
proof -
  from makeElementFocusableAndFocus_repeated [OF assms, of k]
  have "blurListeners ((makeElementFocusableAndFocus e ^^ Suc k) p) e =
      blurListeners p e @ [RemoveTabindex]"
    by simp
  then have "attributeOf e ''tabindex''
      (dispatchBlur e ((makeElementFocusableAndFocus e ^^ Suc k) p)) = None"
    by (rule attributeOf_dispatchBlur_remove)
  then show ?thesis by (simp add: dispatchBlur_fields)
qed

text \<open>
  C9 asks that the \<open>tabindex="-1"\<close> the traversal assigns to an element that had
  none is gone again once the element has lost focus. The code does not do so when
  Alt+Shift+H follows \<open>h\<close> on the same heading. On the small page, \<open>h\<close> runs
  \<open>makeElementFocusableAndFocus\<close> on the first heading, which had no \<open>tabindex\<close>: it
  gets \<open>-1\<close>, focus and the listener that removes the attribute. Alt+Shift+H runs
  \<open>focusMainHeading\<close> on the same heading, which reads \<open>-1\<close> as the original value
  and registers a second listener that puts it back. A second \<open>h\<close> moves focus to
  the next heading; the first heading loses focus, both listeners run in order, and
  it is left with \<open>tabindex="-1"\<close> and no listener pending.
\<close>

theorem makeElementFocusableAndFocus_tabindex_left_behind:
  "attributeOf 1 ''tabindex'' (page startState) = None \<and>
   page onHeading = makeElementFocusableAndFocus 1 (page startState) \<and>
   attributeOf 1 ''tabindex'' (page onHeading) = Some ''-1'' \<and>
   activeElement (page onHeading) = 1 \<and>
   blurListeners (page onHeading) 1 = [RemoveTabindex] \<and>
   findNode 1 (body (page onHeading)) = Some focusedHeading \<and>
   page onMainHeading = focusMainHeading (page onHeading) \<and>
   activeElement (page onMainHeading) = 1 \<and>
   blurListeners (page onMainHeading) 1 = [RemoveTabindex, RestoreTabindex (Some ''-1'')] \<and>
   findNode 1 (body (page onMainHeading)) = Some focusedHeading \<and>
   activeElement (page onNextHeading) = 2 \<and>
   blurListeners (page onNextHeading) 1 = [] \<and>
   attributeOf 1 ''tabindex'' (page onNextHeading) = Some ''-1''"
proof -
  have 1: "attributeOf 1 ''tabindex'' (page startState) = None" by code_simp
  have c: "currentHeadingIndex startState = - 1"
    by (simp add: startState_def initialState_def)
  have i: "map ident (getAllHeadings (body (page startState))) = [1, 2]" by code_simp
  then obtain a b where h: "getAllHeadings (body (page startState)) = [a, b]" and a: "ident a = 1"
    by auto
  have o: "onHeading = navigateToNextHeading startState"
    by (simp add: onHeading_def handleKeyPress_def keyAlone_def bodyNode_def smallDocument_def
        el_def shouldIgnoreKeyEvent_def getAttribute_def)
  have n: "page (navigateToNextHeading startState) =
      makeElementFocusableAndFocus 1 (page startState)"
    using h a c
    by (simp add: navigateToNextHeading_def nextCursor_def jsRemainder_def elementAt_def)
  have 2: "page onHeading = makeElementFocusableAndFocus 1 (page startState)"
    by (simp only: o n)
  have 3: "attributeOf 1 ''tabindex'' (page onHeading) = Some ''-1''" by code_simp
  have 4: "activeElement (page onHeading) = 1" by code_simp
  have 5: "blurListeners (page onHeading) 1 = [RemoveTabindex]" by code_simp
  have 6: "findNode 1 (body (page onHeading)) = Some focusedHeading" by code_simp
  have 7: "page onMainHeading = focusMainHeading (page onHeading)"
    by (simp add: onMainHeading_def handleKeyPress_def keyWithAltShift_def focusedHeading_def
        shouldIgnoreKeyEvent_def getAttribute_def onPage_def)
  have 8: "activeElement (page onMainHeading) = 1" by code_simp
  have 9: "blurListeners (page onMainHeading) 1 = [RemoveTabindex, RestoreTabindex (Some ''-1'')]"
    by code_simp
  have 10: "findNode 1 (body (page onMainHeading)) = Some focusedHeading" by code_simp
  have 11: "activeElement (page onNextHeading) = 2" by code_simp
  have 12: "blurListeners (page onNextHeading) 1 = []" by code_simp
  have 13: "attributeOf 1 ''tabindex'' (page onNextHeading) = Some ''-1''" by code_simp
  from 1 2 3 4 5 6 7 8 9 10 11 12 13 show ?thesis by blast
qed

text \<open>
  C3. In every state the script can be in, and for headings and landmarks alike: when
  the freshly computed list is not empty, \<open>next\<close> sets the cursor to
  \<open>(cursor + 1) mod n\<close> and \<open>prev\<close> sets it to \<open>n - 1\<close> when it is at most 0 and to
  \<open>cursor - 1\<close> otherwise; when the list is empty, both return the state as it was,
  the cursor, the other variables, the page and its focus included.
\<close>

theorem navigation_transitions:
  assumes "reachable s"
  shows "(getAllHeadings (body (page s)) \<noteq> [] \<longrightarrow>
            currentHeadingIndex (navigateToNextHeading s) =
              (currentHeadingIndex s + 1) mod int (length (getAllHeadings (body (page s)))) \<and>
            currentHeadingIndex (navigateToPreviousHeading s) =
              (if currentHeadingIndex s \<le> 0
               then int (length (getAllHeadings (body (page s)))) - 1
               else currentHeadingIndex s - 1)) \<and>
         (getAllHeadings (body (page s)) = [] \<longrightarrow>
            navigateToNextHeading s = s \<and> navigateToPreviousHeading s = s) \<and>
         (getAllLandmarks (body (page s)) \<noteq> [] \<longrightarrow>
            currentLandmarkIndex (navigateToNextLandmark s) =
              (currentLandmarkIndex s + 1) mod int (length (getAllLandmarks (body (page s)))) \<and>
            currentLandmarkIndex (navigateToPreviousLandmark s) =
              (if currentLandmarkIndex s \<le> 0
               then int (length (getAllLandmarks (body (page s)))) - 1
               else currentLandmarkIndex s - 1)) \<and>
         (getAllLandmarks (body (page s)) = [] \<longrightarrow>
            navigateToNextLandmark s = s \<and> navigateToPreviousLandmark s = s)"
proof -
  from assms have "cursorInvariant s" by (rule reachable_cursorInvariant)
  then have h: "- 1 \<le> currentHeadingIndex s" and l: "- 1 \<le> currentLandmarkIndex s"
    by (simp_all add: cursorInvariant_def)
  have "getAllHeadings (body (page s)) \<noteq> [] \<longrightarrow>
            currentHeadingIndex (navigateToNextHeading s) =
              (currentHeadingIndex s + 1) mod int (length (getAllHeadings (body (page s)))) \<and>
            currentHeadingIndex (navigateToPreviousHeading s) =
              (if currentHeadingIndex s \<le> 0
               then int (length (getAllHeadings (body (page s)))) - 1
               else currentHeadingIndex s - 1)"
    using h by (simp add: navigateToNextHeading_fields navigateToPreviousHeading_fields
        nextCursor_mod previousCursor_def)
  moreover have "getAllHeadings (body (page s)) = [] \<longrightarrow>
            navigateToNextHeading s = s \<and> navigateToPreviousHeading s = s"
    by (simp add: navigateToNextHeading_def navigateToPreviousHeading_def)
  moreover have "getAllLandmarks (body (page s)) \<noteq> [] \<longrightarrow>
            currentLandmarkIndex (navigateToNextLandmark s) =
              (currentLandmarkIndex s + 1) mod int (length (getAllLandmarks (body (page s)))) \<and>
            currentLandmarkIndex (navigateToPreviousLandmark s) =
              (if currentLandmarkIndex s \<le> 0
               then int (length (getAllLandmarks (body (page s)))) - 1
               else currentLandmarkIndex s - 1)"
    using l by (simp add: navigateToNextLandmark_fields navigateToPreviousLandmark_fields
        nextCursor_mod previousCursor_def)
  moreover have "getAllLandmarks (body (page s)) = [] \<longrightarrow>
            navigateToNextLandmark s = s \<and> navigateToPreviousLandmark s = s"
    by (simp add: navigateToNextLandmark_def navigateToPreviousLandmark_def)
  ultimately show ?thesis by blast
qed

theorem navigation_transitions_witness:
  "reachable exampleState \<and>
   length (getAllHeadings (body (page exampleState))) = 3 \<and>
   length (getAllLandmarks (body (page exampleState))) = 8 \<and>
   currentHeadingIndex exampleState = - 1 \<and>
   currentLandmarkIndex exampleState = - 1 \<and>
   currentHeadingIndex (navigateToNextHeading exampleState) = 0 \<and>
   currentHeadingIndex (navigateToPreviousHeading exampleState) = 2 \<and>
   currentLandmarkIndex (navigateToNextLandmark exampleState) = 0 \<and>
   currentLandmarkIndex (navigateToPreviousLandmark exampleState) = 7 \<and>
   reachable emptyState \<and>
   getAllHeadings (body (page emptyState)) = [] \<and>
   getAllLandmarks (body (page emptyState)) = [] \<and>
   navigateToNextHeading emptyState = emptyState \<and>
   navigateToPreviousHeading emptyState = emptyState \<and>
   navigateToNextLandmark emptyState = emptyState \<and>
   navigateToPreviousLandmark emptyState = emptyState"
proof -
  have r: "reachable exampleState" "reachable emptyState"
    unfolding exampleState_def emptyState_def by (rule reachable.start)+
  have n: "length (getAllHeadings (body (page exampleState))) = 3"
    "length (getAllLandmarks (body (page exampleState))) = 8"
    by code_simp+
  have c: "currentHeadingIndex exampleState = - 1" "currentLandmarkIndex exampleState = - 1"
    by (simp_all add: exampleState_def initialState_def)
  have e: "getAllHeadings (body (page emptyState)) = []"
    "getAllLandmarks (body (page emptyState)) = []"
    by code_simp+
  from n have ne: "getAllHeadings (body (page exampleState)) \<noteq> []"
    "getAllLandmarks (body (page exampleState)) \<noteq> []"
    by auto
  from navigation_transitions [OF r(1)] ne n c
  have 1: "currentHeadingIndex (navigateToNextHeading exampleState) = 0 \<and>
           currentHeadingIndex (navigateToPreviousHeading exampleState) = 2 \<and>
           currentLandmarkIndex (navigateToNextLandmark exampleState) = 0 \<and>
           currentLandmarkIndex (navigateToPreviousLandmark exampleState) = 7"
    by simp
  from navigation_transitions [OF r(2)] e
  have 2: "navigateToNextHeading emptyState = emptyState \<and>
           navigateToPreviousHeading emptyState = emptyState \<and>
           navigateToNextLandmark emptyState = emptyState \<and>
           navigateToPreviousLandmark emptyState = emptyState"
    by simp
  from r n c e 1 2 show ?thesis by simp
qed

section \<open>Properties of the keyboard dispatch and of the help dialog\<close>

lemma toggleHelpDialog_flips:
  assumes "dialogInvariant s"
  shows "helpDialogOpen (toggleHelpDialog s) = (\<not> helpDialogOpen s)"
proof (cases "helpDialogOpen s")
  case True
  with assms have "helpDialogElement s \<noteq> None" by (simp add: dialogInvariant_def)
  with True show ?thesis by (simp add: toggleHelpDialog_def closeHelpDialog_open)
next
  case False
  then show ?thesis by (simp add: toggleHelpDialog_def openHelpDialog_opened)
qed

lemma closeHelpDialog_closes:
  assumes "dialogInvariant s"
  shows "\<not> helpDialogOpen (closeHelpDialog s)"
proof (cases "helpDialogOpen s")
  case True
  with assms have "helpDialogElement s \<noteq> None" by (simp add: dialogInvariant_def)
  with True show ?thesis by (simp add: closeHelpDialog_open)
next
  case False
  then show ?thesis by (simp add: closeHelpDialog_closed)
qed

lemma shouldIgnoreKeyEvent_iff:
  "shouldIgnoreKeyEvent event \<longleftrightarrow>
     tagName (target event) \<in> {''INPUT'', ''TEXTAREA'', ''SELECT''} \<or>
     isContentEditable (target event) \<or>
     getAttribute (target event) ''role'' \<in>
       Some ` {''textbox'', ''searchbox'', ''combobox'', ''listbox'', ''tree'', ''grid''} \<or>
     capsLock event"
  by (auto simp: shouldIgnoreKeyEvent_def split: option.splits)

text \<open>
  Opening appends the dialog below the body; closing leaves no element with the
  identity of the dialog below the body.
\<close>

lemma openHelpDialog_attached:
  assumes "\<not> helpDialogOpen s"
  shows "nextIdent s \<in> set (map ident (tl (nodes (body (page (openHelpDialog s))))))"
proof -
  let ?d = "fst (createElements (nextIdent s) (helpDialogMarkup (DEBUG_FOCUS s)))"
  from assms obtain b where
    "querySelector (hasId ''easynav-help-close'') ?d = Some b"
    and eq: "openHelpDialog s =
      s\<lparr>lastFocusedElement := Some (activeElement (page s)),
        helpDialogElement := Some (nextIdent s),
        nextIdent := snd (createElements (nextIdent s) (helpDialogMarkup (DEBUG_FOCUS s))),
        page := focus (ident b) (appendChild ?d (page s)),
        helpDialogOpen := True\<rparr>"
    by (rule openHelpDialog_closed)
  have "node ?d \<in> set (nodes ?d)" by (cases ?d) simp
  then have "ident (node ?d) \<in> set (map ident (tl (nodes (body (appendChild ?d (page s))))))"
    by (simp add: appendChild_def)
  then have "nextIdent s \<in> set (map ident (tl (nodes (body (appendChild ?d (page s))))))"
    by (simp only: dialog_ident)
  then have "nextIdent s \<in>
      set (tl (map ident (nodes (body (focus (ident b) (appendChild ?d (page s)))))))"
    by (simp only: idents_focus map_tl)
  then show ?thesis by (simp add: eq map_tl)
qed

lemma closeHelpDialog_detached:
  assumes "helpDialogOpen s" and "helpDialogElement s = Some d"
  shows "d \<notin> set (map ident (tl (nodes (body (page (closeHelpDialog s))))))"
proof -
  define p1 where "p1 = (if d \<in> set (map ident (tl (nodes (body (page s)))))
                         then removeChild d (page s) else page s)"
  have 1: "d \<notin> set (tl (map ident (nodes (body p1))))"
    using removeElement_below [of d "body (page s)"]
    by (simp add: p1_def removeChild_def map_tl)
  have pg: "page (closeHelpDialog s) =
      (case lastFocusedElement s of
         None \<Rightarrow> focusFallback p1
       | Some e \<Rightarrow> if findNode e (body p1) \<noteq> None then focus e p1 else focusFallback p1)"
  proof (cases "d \<in> set (map ident (tl (nodes (body (page s)))))")
    case True
    then have e: "p1 = removeChild d (page s)" by (simp only: p1_def if_True)
    show ?thesis unfolding e using True assms by (simp add: closeHelpDialog_def Let_def)
  next
    case False
    then have e: "p1 = page s" by (simp only: p1_def if_False)
    show ?thesis unfolding e using False assms by (simp add: closeHelpDialog_def Let_def)
  qed
  have "map ident (nodes (body (page (closeHelpDialog s)))) = map ident (nodes (body p1))"
    by (simp add: pg idents_focus idents_focusFallback split: option.splits)
  with 1 show ?thesis by (simp add: map_tl)
qed

lemma findNode_None_iff: "findNode i e = None \<longleftrightarrow> i \<notin> set (map ident (nodes e))"
  by (auto simp: findNode_def find_None_iff)

lemma nodes_root: "nodes e = node e # tl (nodes e)"
  by (cases e) simp

lemma closeHelpDialog_body:
  "ident (node (body (page (closeHelpDialog s)))) = ident (node (body (page s)))"
proof (cases "helpDialogOpen s \<and> helpDialogElement s \<noteq> None")
  case False
  then have "closeHelpDialog s = s" by (auto simp: closeHelpDialog_closed)
  then show ?thesis by simp
next
  case True
  then obtain d where d: "helpDialogElement s = Some d" by auto
  define p1 where "p1 = (if d \<in> set (map ident (tl (nodes (body (page s)))))
                         then removeChild d (page s) else page s)"
  have r: "ident (node (body p1)) = ident (node (body (page s)))"
    by (simp add: p1_def removeChild_def removeElement_node)
  have pg: "page (closeHelpDialog s) =
      (case lastFocusedElement s of
         None \<Rightarrow> focusFallback p1
       | Some e \<Rightarrow> if findNode e (body p1) \<noteq> None then focus e p1 else focusFallback p1)"
  proof (cases "d \<in> set (map ident (tl (nodes (body (page s)))))")
    case True
    then have e: "p1 = removeChild d (page s)" by (simp only: p1_def if_True)
    show ?thesis unfolding e using True \<open>helpDialogOpen s \<and> helpDialogElement s \<noteq> None\<close> d
      by (simp add: closeHelpDialog_def Let_def)
  next
    case False
    then have e: "p1 = page s" by (simp only: p1_def if_False)
    show ?thesis unfolding e using False \<open>helpDialogOpen s \<and> helpDialogElement s \<noteq> None\<close> d
      by (simp add: closeHelpDialog_def Let_def)
  qed
  have "map ident (nodes (body (page (closeHelpDialog s)))) = map ident (nodes (body p1))"
    by (simp add: pg idents_focus idents_focusFallback split: option.splits)
  then have "hd (map ident (nodes (body (page (closeHelpDialog s))))) =
      hd (map ident (nodes (body p1)))"
    by simp
  moreover have "hd (map ident (nodes e)) = ident (node e)" for e
    by (cases e) simp
  ultimately show ?thesis using r by simp
qed

lemma closeHelpDialog_out_of_document:
  assumes "helpDialogOpen s" and "helpDialogElement s = Some d"
    and "d \<noteq> ident (node (body (page s)))"
  shows "findNode d (body (page (closeHelpDialog s))) = None"
proof -
  let ?b = "body (page (closeHelpDialog s))"
  have "map ident (nodes ?b) = ident (node ?b) # map ident (tl (nodes ?b))"
    using nodes_root [of ?b] by (metis list.simps(9))
  with closeHelpDialog_detached [OF assms(1,2)] assms(3) closeHelpDialog_body [of s]
  have "d \<notin> set (map ident (nodes ?b))" by simp
  then show ?thesis by (simp add: findNode_None_iff)
qed

text \<open>
  C4. In every state the script can be in, a keydown the guard suppresses (the target
  is an \<open>INPUT\<close>, \<open>TEXTAREA\<close> or \<open>SELECT\<close>, or is content-editable, or has one of
  the six widget roles, or CapsLock is on) runs no navigation: the handler toggles
  the dialog when the key is the help shortcut, closes the dialog when the key is
  Escape and the dialog is open, and otherwise returns without calling
  \<open>preventDefault\<close> and without changing anything. The toggle does open a closed
  dialog, with the new dialog element in the document below the body afterwards,
  and close an open one; closing does leave the dialog closed, with the dialog
  element nowhere below the body, that is out of the document, afterwards.
\<close>

theorem guarded_keydown:
  assumes "reachable s"
    and "tagName (target event) \<in> {''INPUT'', ''TEXTAREA'', ''SELECT''} \<or>
         isContentEditable (target event) \<or>
         getAttribute (target event) ''role'' \<in>
           Some ` {''textbox'', ''searchbox'', ''combobox'', ''listbox'', ''tree'', ''grid''} \<or>
         capsLock event"
  shows "handleKeyPress event s =
           (if key event = ''/'' \<and>
               ((ctrlKey event \<and> \<not> isMac s) \<or> (metaKey event \<and> isMac s)) \<and>
               \<not> altKey event \<and> \<not> shiftKey event
            then (True, toggleHelpDialog s)
            else if key event = ''Escape'' \<and> helpDialogOpen s then (True, closeHelpDialog s)
            else (False, s)) \<and>
         helpDialogOpen (toggleHelpDialog s) = (\<not> helpDialogOpen s) \<and>
         \<not> helpDialogOpen (closeHelpDialog s) \<and>
         (\<forall>d. helpDialogElement s = Some d \<longrightarrow>
            d \<notin> set (map ident (tl (nodes (body (page (closeHelpDialog s)))))) \<and>
            d \<notin> set (map ident (tl (nodes (body (page (toggleHelpDialog s)))))) \<and>
            (d \<noteq> ident (node (body (page s))) \<longrightarrow>
               findNode d (body (page (closeHelpDialog s))) = None \<and>
               findNode d (body (page (toggleHelpDialog s))) = None)) \<and>
         (\<not> helpDialogOpen s \<longrightarrow>
            helpDialogElement (toggleHelpDialog s) = Some (nextIdent s) \<and>
            nextIdent s \<in> set (map ident (tl (nodes (body (page (toggleHelpDialog s)))))) \<and>
            findNode (nextIdent s) (body (page (toggleHelpDialog s))) \<noteq> None)"
proof -
  from assms(2) have g: "shouldIgnoreKeyEvent event"
    by (simp only: shouldIgnoreKeyEvent_iff)
  from assms(1) have i: "dialogInvariant s" by (rule reachable_dialogInvariant)
  have "handleKeyPress event s =
           (if key event = ''/'' \<and>
               ((ctrlKey event \<and> \<not> isMac s) \<or> (metaKey event \<and> isMac s)) \<and>
               \<not> altKey event \<and> \<not> shiftKey event
            then (True, toggleHelpDialog s)
            else if key event = ''Escape'' \<and> helpDialogOpen s then (True, closeHelpDialog s)
            else (False, s))"
    using g by (simp add: handleKeyPress_def Let_def)
  moreover have "\<forall>d. helpDialogElement s = Some d \<longrightarrow>
            d \<notin> set (map ident (tl (nodes (body (page (closeHelpDialog s)))))) \<and>
            d \<notin> set (map ident (tl (nodes (body (page (toggleHelpDialog s)))))) \<and>
            (d \<noteq> ident (node (body (page s))) \<longrightarrow>
               findNode d (body (page (closeHelpDialog s))) = None \<and>
               findNode d (body (page (toggleHelpDialog s))) = None)"
  proof (intro allI impI)
    fix d assume d: "helpDialogElement s = Some d"
    with i have o: "helpDialogOpen s" by (simp add: dialogInvariant_def)
    from o have t: "toggleHelpDialog s = closeHelpDialog s" by (simp add: toggleHelpDialog_def)
    have "d \<noteq> ident (node (body (page s))) \<longrightarrow>
        findNode d (body (page (closeHelpDialog s))) = None"
      using closeHelpDialog_out_of_document [OF o d] by blast
    with closeHelpDialog_detached [OF o d]
    show "d \<notin> set (map ident (tl (nodes (body (page (closeHelpDialog s)))))) \<and>
          d \<notin> set (map ident (tl (nodes (body (page (toggleHelpDialog s)))))) \<and>
          (d \<noteq> ident (node (body (page s))) \<longrightarrow>
             findNode d (body (page (closeHelpDialog s))) = None \<and>
             findNode d (body (page (toggleHelpDialog s))) = None)"
      by (simp only: t simp_thms)
  qed
  moreover have "\<not> helpDialogOpen s \<longrightarrow>
            helpDialogElement (toggleHelpDialog s) = Some (nextIdent s) \<and>
            nextIdent s \<in> set (map ident (tl (nodes (body (page (toggleHelpDialog s)))))) \<and>
            findNode (nextIdent s) (body (page (toggleHelpDialog s))) \<noteq> None"
  proof
    assume c: "\<not> helpDialogOpen s"
    then have t: "toggleHelpDialog s = openHelpDialog s" by (simp add: toggleHelpDialog_def)
    let ?b = "body (page (openHelpDialog s))"
    from openHelpDialog_attached [OF c]
    have m: "nextIdent s \<in> set (map ident (tl (nodes ?b)))" .
    then have "nextIdent s \<in> set (map ident (nodes ?b))"
      using nodes_root [of ?b] by (metis list.set_intros(2) list.simps(9))
    then have "findNode (nextIdent s) ?b \<noteq> None" by (simp add: findNode_None_iff)
    with m openHelpDialog_opened(2) [OF c]
    show "helpDialogElement (toggleHelpDialog s) = Some (nextIdent s) \<and>
          nextIdent s \<in> set (map ident (tl (nodes (body (page (toggleHelpDialog s)))))) \<and>
          findNode (nextIdent s) (body (page (toggleHelpDialog s))) \<noteq> None"
      by (simp only: t simp_thms)
  qed
  ultimately show ?thesis
    using toggleHelpDialog_flips [OF i] closeHelpDialog_closes [OF i] by simp
qed

lemma reachable_opened: "reachable (snd (handleKeyPress (keyWithCtrl ''/'' inputNode) startState))"
  by (rule reachable.keydown) (rule reachable_startState)

theorem guarded_keydown_witness:
  "reachable startState \<and> tagName inputNode = ''INPUT'' \<and>
   handleKeyPress (keyAlone ''h'' inputNode) startState = (False, startState) \<and>
   handleKeyPress (keyWithCtrl ''/'' inputNode) startState = (True, toggleHelpDialog startState) \<and>
   helpDialogOpen (toggleHelpDialog startState) \<and>
   helpDialogElement (toggleHelpDialog startState) = Some 4 \<and>
   findNode 4 (body (page startState)) = None \<and>
   4 \<in> set (map ident (tl (nodes (body (page (toggleHelpDialog startState)))))) \<and>
   findNode 4 (body (page (toggleHelpDialog startState))) \<noteq> None \<and>
   attributeOf 4 ''id'' (page (toggleHelpDialog startState)) = Some ''easynav-help-dialog'' \<and>
   activeElement (page (toggleHelpDialog startState)) = 7 \<and>
   handleKeyPress (keyAlone ''Escape'' inputNode) (toggleHelpDialog startState) =
     (True, closeHelpDialog (toggleHelpDialog startState)) \<and>
   \<not> helpDialogOpen (closeHelpDialog (toggleHelpDialog startState)) \<and>
   4 \<notin> set (map ident (tl (nodes (body (page (closeHelpDialog (toggleHelpDialog startState))))))) \<and>
   findNode 4 (body (page (closeHelpDialog (toggleHelpDialog startState)))) = None \<and>
   activeElement (page (closeHelpDialog (toggleHelpDialog startState))) = 0"
proof -
  have t: "tagName inputNode = ''INPUT''" by (simp add: inputNode_def)
  have c: "\<not> helpDialogOpen startState" "\<not> isMac startState"
    by (simp_all add: startState_def initialState_def)
  have k: "nextIdent startState = 4" by code_simp
  have b: "ident (node (body (page (toggleHelpDialog startState)))) = 0" by code_simp
  have f: "findNode 4 (body (page startState)) = None" by code_simp
  have a: "attributeOf 4 ''id'' (page (toggleHelpDialog startState)) = Some ''easynav-help-dialog''"
    "activeElement (page (toggleHelpDialog startState)) = 7"
    "activeElement (page (closeHelpDialog (toggleHelpDialog startState))) = 0"
    by code_simp+
  have o: "snd (handleKeyPress (keyWithCtrl ''/'' inputNode) startState) = toggleHelpDialog startState"
    using c by (simp add: handleKeyPress_def keyWithCtrl_def)
  have r: "reachable (toggleHelpDialog startState)"
    using reachable_opened by (simp only: o)
  have m: "\<not> isMac (toggleHelpDialog startState)"
    using c by (simp add: toggleHelpDialog_def openHelpDialog_def Let_def case_prod_beta
        split: option.splits)
  from guarded_keydown [OF reachable_startState, of "keyAlone ''h'' inputNode"] t c
  have 1: "handleKeyPress (keyAlone ''h'' inputNode) startState = (False, startState)"
    by (simp add: keyAlone_def)
  from guarded_keydown [OF reachable_startState, of "keyWithCtrl ''/'' inputNode"] t c k
  have 2: "handleKeyPress (keyWithCtrl ''/'' inputNode) startState = (True, toggleHelpDialog startState) \<and>
           helpDialogOpen (toggleHelpDialog startState) \<and>
           helpDialogElement (toggleHelpDialog startState) = Some 4 \<and>
           4 \<in> set (map ident (tl (nodes (body (page (toggleHelpDialog startState)))))) \<and>
           findNode 4 (body (page (toggleHelpDialog startState))) \<noteq> None"
    by (simp add: keyWithCtrl_def)
  from guarded_keydown [OF r, of "keyAlone ''Escape'' inputNode"] t 2 m b
  have 3: "handleKeyPress (keyAlone ''Escape'' inputNode) (toggleHelpDialog startState) =
             (True, closeHelpDialog (toggleHelpDialog startState)) \<and>
           \<not> helpDialogOpen (closeHelpDialog (toggleHelpDialog startState)) \<and>
           4 \<notin> set (map ident (tl (nodes (body (page (closeHelpDialog (toggleHelpDialog startState))))))) \<and>
           findNode 4 (body (page (closeHelpDialog (toggleHelpDialog startState)))) = None"
    by (simp add: keyAlone_def)
  from reachable_startState t 1 2 3 f a show ?thesis by simp
qed

text \<open>
  C6. Opening the dialog while it is open returns the state as it was, and so does
  closing it while it is closed; opening twice is opening once, and closing twice is
  closing once.
\<close>

theorem helpDialog_idempotent:
  "(helpDialogOpen s \<longrightarrow> openHelpDialog s = s) \<and>
   (\<not> helpDialogOpen s \<longrightarrow> closeHelpDialog s = s) \<and>
   openHelpDialog (openHelpDialog s) = openHelpDialog s \<and>
   closeHelpDialog (closeHelpDialog s) = closeHelpDialog s"
proof -
  have "openHelpDialog (openHelpDialog s) = openHelpDialog s"
    by (cases "helpDialogOpen s") (simp_all add: openHelpDialog_already openHelpDialog_opened)
  moreover have "closeHelpDialog (closeHelpDialog s) = closeHelpDialog s"
  proof (cases "helpDialogOpen s \<and> helpDialogElement s \<noteq> None")
    case True
    then have "\<not> helpDialogOpen (closeHelpDialog s)" by (simp add: closeHelpDialog_open)
    then show ?thesis by (simp add: closeHelpDialog_closed)
  next
    case False
    then have "closeHelpDialog s = s" by (auto simp: closeHelpDialog_closed)
    then show ?thesis by simp
  qed
  ultimately show ?thesis by (simp add: openHelpDialog_already closeHelpDialog_closed)
qed

theorem helpDialog_idempotent_witness:
  "\<not> helpDialogOpen startState \<and> closeHelpDialog startState = startState \<and>
   helpDialogOpen (openHelpDialog startState) \<and>
   openHelpDialog (openHelpDialog startState) = openHelpDialog startState \<and>
   \<not> helpDialogOpen (closeHelpDialog (openHelpDialog startState)) \<and>
   closeHelpDialog (closeHelpDialog (openHelpDialog startState)) =
     closeHelpDialog (openHelpDialog startState)"
proof -
  have c: "\<not> helpDialogOpen startState" by (simp add: startState_def initialState_def)
  then have o: "helpDialogOpen (openHelpDialog startState)" by (rule openHelpDialog_opened)
  have n: "\<not> helpDialogOpen (closeHelpDialog (openHelpDialog startState))" by code_simp
  from helpDialog_idempotent [of startState] helpDialog_idempotent [of "openHelpDialog startState"]
    c o n
  show ?thesis by simp
qed

text \<open>
  C10. In every state the script can be in, \<open>helpDialogOpen\<close> is true exactly when
  \<open>helpDialogElement\<close> is not null; this also holds after \<open>openHelpDialog\<close>, after
  \<open>closeHelpDialog\<close> and after \<open>toggleHelpDialog\<close>; and after \<open>closeHelpDialog\<close>
  \<open>lastFocusedElement\<close> is null.
\<close>

theorem helpDialog_invariant:
  assumes "reachable s"
  shows "(helpDialogOpen s \<longleftrightarrow> helpDialogElement s \<noteq> None) \<and>
         (helpDialogOpen (openHelpDialog s) \<longleftrightarrow> helpDialogElement (openHelpDialog s) \<noteq> None) \<and>
         (helpDialogOpen (closeHelpDialog s) \<longleftrightarrow> helpDialogElement (closeHelpDialog s) \<noteq> None) \<and>
         (helpDialogOpen (toggleHelpDialog s) \<longleftrightarrow> helpDialogElement (toggleHelpDialog s) \<noteq> None) \<and>
         lastFocusedElement (closeHelpDialog s) = None"
proof -
  from assms have i: "dialogInvariant s" by (rule reachable_dialogInvariant)
  note o = dialogInvariant_open [OF i] and c = dialogInvariant_close [OF i]
    and t = dialogInvariant_toggle [OF i]
  from c closeHelpDialog_closes [OF i] have "lastFocusedElement (closeHelpDialog s) = None"
    by (simp add: dialogInvariant_def)
  with i o c t show ?thesis by (simp add: dialogInvariant_def)
qed

theorem helpDialog_invariant_witness:
  "reachable (toggleHelpDialog startState) \<and>
   helpDialogOpen (toggleHelpDialog startState) \<and>
   helpDialogElement (toggleHelpDialog startState) = Some 4 \<and>
   lastFocusedElement (toggleHelpDialog startState) = Some 0 \<and>
   \<not> helpDialogOpen (closeHelpDialog (toggleHelpDialog startState)) \<and>
   helpDialogElement (closeHelpDialog (toggleHelpDialog startState)) = None \<and>
   lastFocusedElement (closeHelpDialog (toggleHelpDialog startState)) = None"
proof -
  have c: "\<not> helpDialogOpen startState" "\<not> isMac startState"
    by (simp_all add: startState_def initialState_def)
  have o: "snd (handleKeyPress (keyWithCtrl ''/'' inputNode) startState) = toggleHelpDialog startState"
    using c by (simp add: handleKeyPress_def keyWithCtrl_def)
  have r: "reachable (toggleHelpDialog startState)"
    using reachable_opened by (simp only: o)
  have e: "helpDialogElement (toggleHelpDialog startState) = Some 4" by code_simp
  have l: "lastFocusedElement (toggleHelpDialog startState) = Some 0" by code_simp
  have n: "\<not> helpDialogOpen (closeHelpDialog (toggleHelpDialog startState))" by code_simp
  from helpDialog_invariant [OF r] e l r n show ?thesis by auto
qed

section \<open>Focus after the help dialog is closed\<close>

text \<open>
  When the element captured at opening is still in the document after the dialog
  is removed and can take focus, closing the dialog gives it focus.
\<close>

lemma closeHelpDialog_restores:
  assumes "helpDialogOpen s" and "helpDialogElement s = Some d"
    and "lastFocusedElement s = Some e"
    and "p1 = (if d \<in> set (map ident (tl (nodes (body (page s)))))
               then removeChild d (page s) else page s)"
    and "findNode e (body p1) = Some n"
    and "isFocusable (body p1) n"
  shows "activeElement (page (closeHelpDialog s)) = e"
proof -
  from assms(5,6) have "activeElement (focus e p1) = e" by (rule activeElement_focus)
  with assms(1-5) show ?thesis by (simp add: closeHelpDialog_def Let_def)
qed

text \<open>
  C5 asks that closing the dialog restores focus to the element that had focus when
  the dialog was opened, whenever that element is still attached. The code does not
  do so for a heading reached with \<open>h\<close>. On the small page, \<open>h\<close> gives the first
  heading \<open>tabindex="-1"\<close> and focus; Ctrl+\<open>/\<close> captures the heading and moves focus
  to the close button, and the heading, losing focus, loses its \<open>tabindex\<close>; Escape
  removes the dialog and calls \<open>focus()\<close> on the heading, which is attached but can
  no longer take focus: \<open>document.activeElement\<close> ends as the body.
\<close>

theorem closeHelpDialog_focus_not_restored:
  "findNode 1 (body (page onHeading)) = Some focusedHeading \<and>
   activeElement (page onHeading) = 1 \<and>
   helpDialogOpen dialogOverHeading \<and>
   lastFocusedElement dialogOverHeading = Some 1 \<and>
   findNode 7 (body (page dialogOverHeading)) = Some closeButtonNode \<and>
   activeElement (page dialogOverHeading) = 7 \<and>
   afterEscape = closeHelpDialog dialogOverHeading \<and>
   \<not> helpDialogOpen afterEscape \<and>
   findNode 1 (body (page afterEscape)) \<noteq> None \<and>
   attributeOf 1 ''tabindex'' (page afterEscape) = None \<and>
   activeElement (page afterEscape) = 0"
proof -
  have 1: "findNode 1 (body (page onHeading)) = Some focusedHeading" by code_simp
  have 2: "activeElement (page onHeading) = 1" by code_simp
  have 3: "helpDialogOpen dialogOverHeading" by code_simp
  have 4: "lastFocusedElement dialogOverHeading = Some 1" by code_simp
  have 5: "findNode 7 (body (page dialogOverHeading)) = Some closeButtonNode" by code_simp
  have 6: "activeElement (page dialogOverHeading) = 7" by code_simp
  have 7: "afterEscape = closeHelpDialog dialogOverHeading"
    using 3 by (simp add: afterEscape_def handleKeyPress_def keyAlone_def)
  have 8: "\<not> helpDialogOpen afterEscape" by code_simp
  have 9: "findNode 1 (body (page afterEscape)) \<noteq> None" by code_simp
  have 10: "attributeOf 1 ''tabindex'' (page afterEscape) = None" by code_simp
  have 11: "activeElement (page afterEscape) = 0" by code_simp
  from 1 2 3 4 5 6 7 8 9 10 11 show ?thesis by blast
qed


end
